theory Spec2Isabelle
  imports Main "HOL-Library.List_Lexorder" "HOL-Library.Char_ord" "HOL-Library.FSet"
    "HOL-Library.Multiset"
begin

section \<open>Python values and exceptions\<close>

text \<open>
  Exceptions of the modelled code are values. A function that raises returns \<open>Inl e\<close>;
  where the source has already mutated shared state before raising, the state left
  behind is returned beside the exception.
\<close>

datatype py_error =
    KeyError | ValueError | IndexError | TypeError | AssertionError
  | AttributeError | BrainPyError | CodeError | RecursionError

text \<open>
  The objects that travel through the shared context: Python's \<open>None\<close>, strings, integers
  (the step counter \<open>i\<close>), any other value (\<open>'v\<close>: floats, arrays), and delay objects.
  \<open>isinstance(data, Delay)\<close> is the test for the constructor \<open>PDelay\<close>.
\<close>

datatype ('v, 'd) pyobj = PNone | PStr string | PInt int | PVal 'v | PDelay 'd

section \<open>The shared context (\<open>brainpy/_src/dyn/context.py\<close>, class \<open>_ShareContext\<close>)\<close>

text \<open>
  \<open>_arguments\<close> and \<open>_delays\<close> are dictionaries. \<open>get_dt()\<close> reads the process-wide default
  time step of \<open>brainpy.math.environment\<close>, which is not part of these sources: it is the
  field \<open>global_dt\<close>.
\<close>

record ('v, 'd) share_context =
  arguments :: "('v, 'd) pyobj \<Rightarrow> ('v, 'd) pyobj option"
  delays :: "('v, 'd) pyobj \<Rightarrow> 'd option"
  global_dt :: "('v, 'd) pyobj"

definition dt :: "('v, 'd) share_context \<Rightarrow> ('v, 'd) pyobj" where
  "dt sh = (case arguments sh (PStr ''dt'') of Some v \<Rightarrow> v | None \<Rightarrow> global_dt sh)"

text \<open>\<open>load(key, value=None)\<close>: the default \<open>value\<close> is \<open>PNone\<close> when the caller gives none.\<close>

definition load ::
  "('v, 'd) share_context \<Rightarrow> ('v, 'd) pyobj \<Rightarrow> ('v, 'd) pyobj \<Rightarrow> py_error + ('v, 'd) pyobj" where
  "load sh key val =
     (if key = PStr ''dt'' then Inr (dt sh)
      else case arguments sh key of
        Some v \<Rightarrow> Inr v
      | None \<Rightarrow>
         (case delays sh key of
            Some d \<Rightarrow> Inr (PDelay d)
          | None \<Rightarrow> if val = PNone then Inl KeyError else Inr val))"

text \<open>The body shared by the two loops of \<open>save\<close>.\<close>

definition save_item ::
  "('v, 'd) share_context \<Rightarrow> ('v, 'd) pyobj \<Rightarrow> ('v, 'd) pyobj \<Rightarrow> py_error + ('v, 'd) share_context" where
  "save_item sh identifier dat =
     (case dat of
        PDelay d \<Rightarrow>
          (case delays sh identifier of
             Some _ \<Rightarrow> Inl ValueError
           | None \<Rightarrow> Inr (sh\<lparr>delays := (delays sh)(identifier \<mapsto> d)\<rparr>))
      | _ \<Rightarrow> Inr (sh\<lparr>arguments := (arguments sh)(identifier \<mapsto> dat)\<rparr>))"

text \<open>\<open>range(0, n, 2)\<close>.\<close>

definition range2 :: "nat \<Rightarrow> nat list" where
  "range2 n = map (\<lambda>j. 2 * j) [0 ..< (n + 1) div 2]"

text \<open>
  The first loop of \<open>save\<close>: \<open>for i in range(0, len(args), 2)\<close> with
  \<open>identifier = args[i * 2]\<close> and \<open>data = args[i * 2 + 1]\<close>. Indexing a tuple out of
  range raises \<open>IndexError\<close>; the pairs saved before stay saved.
\<close>

fun save_positional ::
  "('v, 'd) share_context \<Rightarrow> ('v, 'd) pyobj list \<Rightarrow> nat list
    \<Rightarrow> (py_error \<times> ('v, 'd) share_context) + ('v, 'd) share_context" where
  "save_positional sh args [] = Inr sh"
| "save_positional sh args (i # rest) =
     (if i * 2 + 1 < length args then
        (case save_item sh (args ! (i * 2)) (args ! (i * 2 + 1)) of
           Inl e \<Rightarrow> Inl (e, sh)
         | Inr sh' \<Rightarrow> save_positional sh' args rest)
      else Inl (IndexError, sh))"

text \<open>The second loop: \<open>for identifier, data in kwargs.items()\<close>.\<close>

fun save_keywords ::
  "('v, 'd) share_context \<Rightarrow> (string \<times> ('v, 'd) pyobj) list
    \<Rightarrow> (py_error \<times> ('v, 'd) share_context) + ('v, 'd) share_context" where
  "save_keywords sh [] = Inr sh"
| "save_keywords sh ((identifier, dat) # rest) =
     (case save_item sh (PStr identifier) dat of
        Inl e \<Rightarrow> Inl (e, sh)
      | Inr sh' \<Rightarrow> save_keywords sh' rest)"

definition save ::
  "('v, 'd) share_context \<Rightarrow> ('v, 'd) pyobj list \<Rightarrow> (string \<times> ('v, 'd) pyobj) list
    \<Rightarrow> (py_error \<times> ('v, 'd) share_context) + ('v, 'd) share_context" where
  "save sh args kwargs =
     (if length args mod 2 \<noteq> 0 then Inl (AssertionError, sh)
      else case save_positional sh args (range2 (length args)) of
        Inl x \<Rightarrow> Inl x
      | Inr sh' \<Rightarrow> save_keywords sh' kwargs)"

text \<open>An empty context, and the two pairs \<open>save('a', 1, 'b', 2)\<close> is called with.\<close>

definition empty_share :: "(unit, unit) share_context" where
  "empty_share = \<lparr>arguments = Map.empty, delays = Map.empty, global_dt = PVal ()\<rparr>"

definition two_pairs :: "(unit, unit) pyobj list" where
  "two_pairs = [PStr ''a'', PInt 1, PStr ''b'', PInt 2]"

section \<open>The delay buffer (\<open>brainpy/_src/dyn/context.py\<close>, class \<open>Delay\<close>)\<close>

text \<open>
  The target is a one-dimensional variable: its value is a list of elements, and the
  buffer \<open>data\<close> is a list of such rows, row \<open>0\<close> first. \<open>data = None\<close> is the buffer that
  was never allocated. The field \<open>dlength\<close> is the attribute \<open>length\<close>, the field
  \<open>update_method\<close> the attribute \<open>method\<close>.
\<close>

datatype update_kind = ROTATE_UPDATE | CONCAT_UPDATE | OTHER_UPDATE

text \<open>
  An array that is assigned to the rows \<open>[1:]\<close> of the buffer: of no dimension, of one
  dimension, or of two, given by its shape and its elements by index. \<open>ArrayN\<close> is an
  array of three or more dimensions.
\<close>

datatype 'a array = Array0 'a | Array1 "'a list" | Array2 nat nat "nat \<Rightarrow> nat \<Rightarrow> 'a" | ArrayN

text \<open>
  \<open>_before_t0\<close>: \<open>None\<close>, a Python scalar, an array, or a callable given the shape
  \<open>(length,) + target.shape\<close> and returning an array.
\<close>

datatype 'a before_t0 =
    BNone | BScalar 'a | BArray "'a array" | BCallable "nat \<Rightarrow> nat \<Rightarrow> 'a array"

text \<open>
  The value stored for an entry in \<open>_access_to_step\<close>: an integer step (a Python int or a
  0-d array) or an array of steps, one for each element of the target.
\<close>

datatype dstep = Homo int | Heter "int list"

record 'a delay =
  update_method :: update_kind
  target :: "'a list"
  target_batch_size :: "nat option"
  dlength :: nat
  before_t0 :: "'a before_t0"
  data :: "'a list list option"
  access_to_step :: "string \<Rightarrow> dstep option option"

text \<open>
  Indexing a sequence with a Python integer: negative indices count from the end, and an
  index out of range is an \<open>IndexError\<close>. A buffer holds \<open>length + 1\<close> rows, so the row
  indices the rotate method computes are always in range.
\<close>

definition py_index :: "'a list \<Rightarrow> int \<Rightarrow> py_error + 'a" where
  "py_index xs i =
     (let n = int (length xs); j = (if i < 0 then i + n else i)
      in if 0 \<le> j \<and> j < n then Inr (xs ! nat j) else Inl IndexError)"

definition py_setitem :: "'a list \<Rightarrow> int \<Rightarrow> 'a \<Rightarrow> py_error + 'a list" where
  "py_setitem xs i v =
     (let n = int (length xs); j = (if i < 0 then i + n else i)
      in if 0 \<le> j \<and> j < n then Inr (xs[nat j := v]) else Inl IndexError)"

text \<open>
  \<open>data[1:] = value\<close> for a buffer of \<open>n + 1\<close> rows over a target of \<open>m\<close> elements: the
  value is broadcast to the shape \<open>(n, m)\<close>. Its dimensions are matched with the last ones
  of that shape, and one fits when it is equal or is 1; a value that does not fit, or has
  more dimensions than the buffer, is a \<open>ValueError\<close>.
\<close>

definition broadcast_rows :: "'a array \<Rightarrow> nat \<Rightarrow> nat \<Rightarrow> py_error + 'a list list" where
  "broadcast_rows a n m =
     (case a of
        Array0 v \<Rightarrow> Inr (replicate n (replicate m v))
      | Array1 xs \<Rightarrow>
          if length xs = m then Inr (replicate n xs)
          else if length xs = 1 then Inr (replicate n (replicate m (hd xs)))
          else Inl ValueError
      | Array2 r c f \<Rightarrow>
          if (r = n \<or> r = 1) \<and> (c = m \<or> c = 1)
          then Inr (map (\<lambda>i. map (\<lambda>j. f (if r = 1 then 0 else i) (if c = 1 then 0 else j)) [0 ..< m])
                        [0 ..< n])
          else Inl ValueError
      | ArrayN \<Rightarrow> Inl ValueError)"

text \<open>The rows \<open>[1:]\<close> of a fresh buffer of \<open>n + 1\<close> rows over a target of \<open>m\<close> elements.\<close>

definition before_rows :: "'a::zero before_t0 \<Rightarrow> nat \<Rightarrow> nat \<Rightarrow> py_error + 'a list list" where
  "before_rows b n m =
     (case b of
        BNone \<Rightarrow> Inr (replicate n (replicate m 0))
      | BScalar v \<Rightarrow> Inr (replicate n (replicate m v))
      | BArray a \<Rightarrow> broadcast_rows a n m
      | BCallable g \<Rightarrow> broadcast_rows (g n m) n m)"

text \<open>
  \<open>_init_data(length, batch_size)\<close>: a new buffer replaces the old one; row \<open>0\<close> is the
  target's value, the other rows come from \<open>_before_t0\<close>. The attribute \<open>length\<close> is left
  to the caller. A seed that does not fit raises after the new buffer is in place; of a
  call that raises only the exception is kept here.
\<close>

definition init_data :: "'a::zero delay \<Rightarrow> nat \<Rightarrow> nat option \<Rightarrow> py_error + 'a delay" where
  "init_data d n batch_size =
     (if batch_size \<noteq> None \<and> target_batch_size d \<noteq> batch_size then Inl ValueError
      else case before_rows (before_t0 d) n (length (target d)) of
        Inl e \<Rightarrow> Inl e
      | Inr rows \<Rightarrow> Inr (d\<lparr>data := Some (target d # rows)\<rparr>))"

definition reset_state :: "'a::zero delay \<Rightarrow> nat option \<Rightarrow> py_error + 'a delay" where
  "reset_state d batch_size =
     (case data d of None \<Rightarrow> Inr d | Some _ \<Rightarrow> init_data d (dlength d) batch_size)"

text \<open>
  The argument \<open>delay_step\<close> of \<open>register_entry\<close>: a Python int, a 0-d array, an array with
  its values and whether its dtype is int32 or int64, a callable given the length of the
  target and returning such an array, or an object of any other type.
\<close>

datatype step_arg =
    SInt int
  | SArr0 int
  | SArr "int list" bool
  | SCallable "nat \<Rightarrow> int list \<times> bool"
  | SOther

text \<open>
  The checks on a heterogeneous step array (dtype, leading dimension), and
  \<open>int(max(delay_step))\<close>, which raises on an empty array.
\<close>

definition register_heter ::
  "'a delay \<Rightarrow> int list \<Rightarrow> bool \<Rightarrow> py_error + (dstep option \<times> int option)" where
  "register_heter d steps int_dtype =
     (if \<not> int_dtype then Inl ValueError
      else if length (target d) \<noteq> length steps then Inl ValueError
      else if steps = [] then Inl ValueError
      else Inr (Some (Heter steps), Some (Max (set steps))))"

text \<open>The classification of \<open>delay_step\<close>: the stored step and \<open>max_delay_step\<close>.\<close>

definition classify_step ::
  "'a delay \<Rightarrow> step_arg option \<Rightarrow> py_error + (dstep option \<times> int option)" where
  "classify_step d delay_step =
     (case delay_step of
        None \<Rightarrow> Inr (None, None)
      | Some (SInt n) \<Rightarrow> Inr (Some (Homo n), Some n)
      | Some (SArr0 n) \<Rightarrow> Inr (Some (Homo n), Some n)
      | Some (SArr steps int_dtype) \<Rightarrow> register_heter d steps int_dtype
      | Some (SCallable f) \<Rightarrow>
          register_heter d (fst (f (length (target d)))) (snd (f (length (target d))))
      | Some SOther \<Rightarrow> Inl ValueError)"

text \<open>
  \<open>register_entry(entry, delay_time, delay_step)\<close>. The conversion of a delay time into
  steps divides floating-point numbers by the time step: it is the parameter \<open>to_step\<close>.
\<close>

definition register_entry ::
  "('t \<Rightarrow> step_arg) \<Rightarrow> 'a::zero delay \<Rightarrow> string \<Rightarrow> 't option \<Rightarrow> step_arg option
    \<Rightarrow> py_error + 'a delay" where
  "register_entry to_step d entry delay_time delay_step =
     (if access_to_step d entry \<noteq> None then Inl KeyError
      else if delay_time \<noteq> None \<and> delay_step \<noteq> None then Inl ValueError
      else
        case classify_step d (case delay_time of Some t \<Rightarrow> Some (to_step t) | None \<Rightarrow> delay_step) of
          Inl e \<Rightarrow> Inl e
        | Inr (stored, max_delay_step) \<Rightarrow>
            (case max_delay_step of
               None \<Rightarrow> Inr (d\<lparr>access_to_step := (access_to_step d)(entry \<mapsto> stored)\<rparr>)
             | Some mx \<Rightarrow>
                 if int (dlength d) < mx then
                   (case init_data d (nat mx) None of
                      Inl e \<Rightarrow> Inl e
                    | Inr d' \<Rightarrow>
                        Inr (d'\<lparr>dlength := nat mx,
                                access_to_step := (access_to_step d')(entry \<mapsto> stored)\<rparr>))
                 else Inr (d\<lparr>access_to_step := (access_to_step d)(entry \<mapsto> stored)\<rparr>)))"




text \<open>\<open>jnp.any(delay_step > self.length)\<close>.\<close>

fun step_exceeds :: "dstep \<Rightarrow> nat \<Rightarrow> bool" where
  "step_exceeds (Homo n) len = (int len < n)"
| "step_exceeds (Heter ns) len = list_ex (\<lambda>n. int len < n) ns"

fun map_step :: "(int \<Rightarrow> int) \<Rightarrow> dstep \<Rightarrow> dstep" where
  "map_step f (Homo n) = Homo (f n)"
| "map_step f (Heter ns) = Heter (map f ns)"

text \<open>
  The row index of \<open>retrieve\<close>. The rotate method reads the step counter \<open>i\<close> from the
  shared context; an object there that is no integer cannot be added to the step.
\<close>

definition delay_index ::
  "('v, 'd) share_context \<Rightarrow> 'a delay \<Rightarrow> dstep \<Rightarrow> py_error + dstep" where
  "delay_index sh d delay_step =
     (case update_method d of
        ROTATE_UPDATE \<Rightarrow>
          (case load sh (PStr ''i'') PNone of
             Inl e \<Rightarrow> Inl e
           | Inr (PInt i) \<Rightarrow> Inr (map_step (\<lambda>s. (i + s) mod (int (dlength d) + 1)) delay_step)
           | Inr _ \<Rightarrow> Inl TypeError)
      | CONCAT_UPDATE \<Rightarrow> Inr delay_step
      | OTHER_UPDATE \<Rightarrow> Inl ValueError)"

text \<open>What \<open>self.data[indices]\<close> gives: one row, elements picked one per row, or rows.\<close>

datatype 'a fetched = Row "'a list" | Rows "'a list list"

fun collect :: "(py_error + 'a) list \<Rightarrow> py_error + 'a list" where
  "collect [] = Inr []"
| "collect (Inl e # _) = Inl e"
| "collect (Inr x # rest) = (case collect rest of Inl e \<Rightarrow> Inl e | Inr xs \<Rightarrow> Inr (x # xs))"

definition pick :: "'a list list \<Rightarrow> int \<times> int \<Rightarrow> py_error + 'a" where
  "pick rows jk = (case py_index rows (fst jk) of Inl e \<Rightarrow> Inl e | Inr r \<Rightarrow> py_index r (snd jk))"

text \<open>
  \<open>self.data[(delay_idx,) + indices]\<close>, for no further index or one index array (the only
  ones \<open>at\<close> makes itself). Two index arrays are paired element by element.
\<close>

definition getitem :: "'a list list \<Rightarrow> dstep \<Rightarrow> int list option \<Rightarrow> py_error + 'a fetched" where
  "getitem rows idx indices =
     (case (idx, indices) of
        (Homo j, None) \<Rightarrow> map_sum id Row (py_index rows j)
      | (Homo j, Some ks) \<Rightarrow> map_sum id Row (collect (map (\<lambda>k. pick rows (j, k)) ks))
      | (Heter js, None) \<Rightarrow> map_sum id Rows (collect (map (py_index rows) js))
      | (Heter js, Some ks) \<Rightarrow>
          (if length js = length ks then map_sum id Row (collect (map (pick rows) (zip js ks)))
           else Inl IndexError))"

text \<open>
  \<open>retrieve(delay_step, *indices)\<close>. \<open>checking\<close> is \<open>check.is_checking()\<close>; the check raises
  through \<open>_check_delay\<close>. Subscripting the buffer that was never allocated is a
  \<open>TypeError\<close>.
\<close>

definition retrieve ::
  "bool \<Rightarrow> ('v, 'd) share_context \<Rightarrow> 'a delay \<Rightarrow> dstep \<Rightarrow> int list option
    \<Rightarrow> py_error + 'a fetched" where
  "retrieve checking sh d delay_step indices =
     (if checking \<and> step_exceeds delay_step (dlength d) then Inl ValueError
      else case delay_index sh d delay_step of
        Inl e \<Rightarrow> Inl e
      | Inr idx \<Rightarrow>
          (case data d of
             None \<Rightarrow> Inl TypeError
           | Some rows \<Rightarrow> getitem rows idx indices))"


text \<open>
  \<open>update(latest_value)\<close>. With the rotate method one row is overwritten; with the concat
  method the buffer becomes \<open>vstack([latest_value, data[1:]])\<close> when \<open>length >= 2\<close> and row
  \<open>0\<close> is overwritten otherwise. A method that is neither changes nothing.
\<close>

definition update ::
  "('v, 'd) share_context \<Rightarrow> 'a delay \<Rightarrow> 'a list option \<Rightarrow> py_error + 'a delay" where
  "update sh d latest_value =
     (case data d of
        None \<Rightarrow> Inr d
      | Some rows \<Rightarrow>
          (let latest = (case latest_value of None \<Rightarrow> target d | Some v \<Rightarrow> v) in
           case update_method d of
             ROTATE_UPDATE \<Rightarrow>
               (case load sh (PStr ''i'') PNone of
                  Inl e \<Rightarrow> Inl e
                | Inr (PInt i) \<Rightarrow>
                    (case py_setitem rows ((i - 1) mod (int (dlength d) + 1)) latest of
                       Inl e \<Rightarrow> Inl e
                     | Inr rows' \<Rightarrow> Inr (d\<lparr>data := Some rows'\<rparr>))
                | Inr _ \<Rightarrow> Inl TypeError)
           | CONCAT_UPDATE \<Rightarrow>
               if 2 \<le> dlength d then Inr (d\<lparr>data := Some (latest # drop 1 rows)\<rparr>)
               else
                 (case py_setitem rows 0 latest of
                    Inl e \<Rightarrow> Inl e
                  | Inr rows' \<Rightarrow> Inr (d\<lparr>data := Some rows'\<rparr>))
           | OTHER_UPDATE \<Rightarrow> Inr d))"


text \<open>
  A simulation that feeds one value per step: at step \<open>i\<close> the counter \<open>i\<close> is put into the
  shared context and the buffer is updated with the value of that step.
\<close>

definition share_at :: "int \<Rightarrow> (unit, unit) share_context" where
  "share_at i = empty_share\<lparr>arguments := [PStr ''i'' \<mapsto> PInt i]\<rparr>"

fun feed :: "'a delay \<Rightarrow> int \<Rightarrow> 'a list list \<Rightarrow> py_error + 'a delay" where
  "feed d i [] = Inr d"
| "feed d i (v # vs) =
     (case update (share_at i) d (Some v) of Inl e \<Rightarrow> Inl e | Inr d' \<Rightarrow> feed d' (i + 1) vs)"

text \<open>A delay over a target of one integer, with no buffer yet and no entry.\<close>

definition fresh_delay :: "update_kind \<Rightarrow> int \<Rightarrow> int before_t0 \<Rightarrow> int delay" where
  "fresh_delay m x b =
     \<lparr>update_method = m, target = [x], target_batch_size = None, dlength = 0, before_t0 = b,
      data = None, access_to_step = Map.empty\<rparr>"

definition no_time :: "unit \<Rightarrow> step_arg" where
  "no_time _ = SOther"



text \<open>The buffers of the scenarios below, written out as records.\<close>

definition concat_delay :: "int delay" where
  "concat_delay =
     \<lparr>update_method = CONCAT_UPDATE, target = [0], target_batch_size = None, dlength = 2,
      before_t0 = BScalar 9, data = Some [[0], [9], [9]],
      access_to_step = [''e'' \<mapsto> Some (Homo 2)]\<rparr>"

definition rotate_delay :: "int delay" where
  "rotate_delay =
     \<lparr>update_method = ROTATE_UPDATE, target = [0], target_batch_size = None, dlength = 3,
      before_t0 = BScalar 9, data = Some [[0], [9], [9], [9]],
      access_to_step = [''e'' \<mapsto> Some (Homo 3)]\<rparr>"





section \<open>The object JIT wrapper (\<open>brainpy/math/object_transform/jit.py\<close>, class \<open>ObjectJIT\<close>)\<close>

text \<open>
  The exceptions the wrapped function can raise. Derived from \<open>Exception\<close> are the two
  JAX errors the wrapper names and any other such exception (\<open>OtherException\<close>); the
  wrapper raises \<open>JaxTracerError\<close> and BrainPy's \<open>ConcretizationTypeError\<close> in place of
  the first two. \<open>MissingKey\<close> is the \<open>KeyError\<close> of a dictionary lookup. Derived from
  \<open>BaseException\<close> but not from \<open>Exception\<close> are \<open>KeyboardInterrupt\<close>, \<open>SystemExit\<close>,
  \<open>GeneratorExit\<close> and any class a program derives so (\<open>OtherBaseException\<close>).
\<close>

datatype 'e jit_exception =
    UnexpectedTracerError | ConcretizationTypeError | OtherException 'e
  | JaxTracerError | BrainPyConcretizationTypeError | MissingKey
  | KeyboardInterrupt | SystemExit | GeneratorExit | OtherBaseException 'e

text \<open>\<open>isinstance(e, Exception)\<close>: what the clause \<open>except Exception\<close> catches.\<close>

definition is_Exception :: "'e jit_exception \<Rightarrow> bool" where
  "is_Exception e =
     (case e of
        KeyboardInterrupt \<Rightarrow> False
      | SystemExit \<Rightarrow> False
      | GeneratorExit \<Rightarrow> False
      | OtherBaseException _ \<Rightarrow> False
      | _ \<Rightarrow> True)"

text \<open>
  The state a call works on: the \<open>_value\<close> of the variable registered under each key,
  and the context stack of \<open>brainpy.math.jaxarray\<close>, which \<open>add_context\<close> and
  \<open>del_context\<close> change. These two functions are not part of the sources and are
  parameters; they are taken to return.
\<close>

record ('k, 'v, 'c) world =
  var_value :: "'k \<Rightarrow> 'v"
  context_stack :: 'c

text \<open>\<open>vars.dict()\<close>: the current value of every registered variable, by key.\<close>

definition vars_dict :: "'k list \<Rightarrow> ('k \<Rightarrow> 'v) \<Rightarrow> 'k \<Rightarrow> 'v option" where
  "vars_dict keys \<sigma> = (\<lambda>k. if k \<in> set keys then Some (\<sigma> k) else None)"

text \<open>
  \<open>for key, v in vars.items(): v._value = m[key]\<close>. The flag is \<open>False\<close> when a key is
  missing from \<open>m\<close>; the assignments made before stay.
\<close>

fun assign_values ::
  "'k list \<Rightarrow> ('k \<Rightarrow> 'v option) \<Rightarrow> ('k \<Rightarrow> 'v) \<Rightarrow> ('k \<Rightarrow> 'v) \<times> bool" where
  "assign_values [] m \<sigma> = (\<sigma>, True)"
| "assign_values (k # ks) m \<sigma> =
     (case m k of None \<Rightarrow> (\<sigma>, False) | Some v \<Rightarrow> assign_values ks m (\<sigma>(k := v)))"

text \<open>
  The body of \<open>jitted_func\<close>. The wrapped function \<open>func\<close> works on the variables and
  either raises or returns; what it did to the variables before raising stays.
\<close>

definition jitted_func ::
  "'k list \<Rightarrow> ('a \<Rightarrow> ('k \<Rightarrow> 'v) \<Rightarrow> ('k \<Rightarrow> 'v) \<times> ('e jit_exception + 'out))
    \<Rightarrow> ('k \<Rightarrow> 'v option) \<Rightarrow> 'a \<Rightarrow> ('k \<Rightarrow> 'v)
    \<Rightarrow> ('k \<Rightarrow> 'v) \<times> ('e jit_exception + 'out \<times> ('k \<Rightarrow> 'v option))" where
  "jitted_func keys func variable_data args \<sigma> =
     (case assign_values keys variable_data \<sigma> of
        (\<sigma>1, False) \<Rightarrow> (\<sigma>1, Inl MissingKey)
      | (\<sigma>1, True) \<Rightarrow>
          (case func args \<sigma>1 of
             (\<sigma>2, Inl e) \<Rightarrow> (\<sigma>2, Inl e)
           | (\<sigma>2, Inr out) \<Rightarrow> (\<sigma>2, Inr (out, vars_dict keys \<sigma>2))))"

text \<open>The exception each of the three handlers raises.\<close>

definition reraise :: "'e jit_exception \<Rightarrow> 'e jit_exception" where
  "reraise e =
     (case e of
        UnexpectedTracerError \<Rightarrow> JaxTracerError
      | ConcretizationTypeError \<Rightarrow> BrainPyConcretizationTypeError
      | _ \<Rightarrow> e)"

text \<open>
  \<open>ObjectJIT.__call__\<close>. \<open>f\<close> is \<open>self._f\<close>, the compiled \<open>jitted_func\<close>: given the
  snapshot and the arguments it leaves the variables in some state and raises or returns
  the output with the dictionary of changes. The three handlers catch what is derived
  from \<open>Exception\<close>; any other exception leaves the \<open>try\<close> statement with no handler run,
  so the context is not deleted and the variables stay as \<open>f\<close> left them.
\<close>

definition object_jit_call ::
  "'k list \<Rightarrow> string \<Rightarrow> (string \<Rightarrow> 'c \<Rightarrow> 'c) \<Rightarrow> (string \<Rightarrow> 'c \<Rightarrow> 'c)
    \<Rightarrow> (('k \<Rightarrow> 'v option) \<Rightarrow> 'a \<Rightarrow> ('k \<Rightarrow> 'v)
          \<Rightarrow> ('k \<Rightarrow> 'v) \<times> ('e jit_exception + 'out \<times> ('k \<Rightarrow> 'v option)))
    \<Rightarrow> 'a \<Rightarrow> ('k, 'v, 'c) world \<Rightarrow> ('k, 'v, 'c) world \<times> ('e jit_exception + 'out)" where
  "object_jit_call keys name add_context del_context f args w =
     (let variable_data = vars_dict keys (var_value w);
          w1 = w\<lparr>context_stack := add_context name (context_stack w)\<rparr>
      in case f variable_data args (var_value w1) of
        (\<sigma>2, Inl e) \<Rightarrow>
          if is_Exception e then
            (w1\<lparr>context_stack := del_context name (context_stack w1),
                var_value := fst (assign_values keys variable_data \<sigma>2)\<rparr>,
             Inl (reraise e))
          else (w1\<lparr>var_value := \<sigma>2\<rparr>, Inl e)
      | (\<sigma>2, Inr (out, changes)) \<Rightarrow>
          (case assign_values keys changes \<sigma>2 of
             (\<sigma>3, False) \<Rightarrow>
               (w1\<lparr>context_stack := del_context name (context_stack w1), var_value := \<sigma>3\<rparr>, Inl MissingKey)
           | (\<sigma>3, True) \<Rightarrow>
               (w1\<lparr>context_stack := del_context name (context_stack w1), var_value := \<sigma>3\<rparr>, Inr out)))"

text \<open>
  Two variables \<open>a = 1\<close> and \<open>b = 2\<close>, a function that fails, one that adds and one that
  is interrupted from the keyboard after it has written to \<open>a\<close>.
\<close>

definition world0 :: "(string, int, string list) world" where
  "world0 = \<lparr>var_value = (\<lambda>k. if k = ''a'' then 1 else if k = ''b'' then 2 else 0), context_stack = []\<rparr>"

definition failing_func :: "int \<Rightarrow> (string \<Rightarrow> int) \<Rightarrow> (string \<Rightarrow> int) \<times> (unit jit_exception + int)" where
  "failing_func x \<sigma> = (\<sigma>(''a'' := 99), Inl (OtherException ()))"

definition adding_func :: "int \<Rightarrow> (string \<Rightarrow> int) \<Rightarrow> (string \<Rightarrow> int) \<times> (unit jit_exception + int)" where
  "adding_func x \<sigma> = (\<sigma>(''a'' := \<sigma> ''a'' + x), Inr (\<sigma> ''b''))"

definition interrupted_func ::
  "int \<Rightarrow> (string \<Rightarrow> int) \<Rightarrow> (string \<Rightarrow> int) \<times> (unit jit_exception + int)" where
  "interrupted_func x \<sigma> = (\<sigma>(''a'' := 99), Inl KeyboardInterrupt)"

section \<open>The call-site rewriter (\<open>brainpy/math/numpy/ast2numba.py\<close>, class \<open>FuncTransformer\<close>)\<close>

text \<open>
  The syntax trees of Python's \<open>ast\<close> module, as far as the rewriter looks into them:
  names, constants, attribute access, calls, starred arguments, and one constructor for
  every other kind of expression with its sub-expressions. The module needs Python 3.6
  or later (it uses f-strings); since Python 3.5 a call node has the fields \<open>func\<close>,
  \<open>args\<close> and \<open>keywords\<close>, the argument \<open>*xs\<close> is the node \<open>Starred xs\<close> among \<open>args\<close> and
  the argument \<open>**kw\<close> is a keyword without a name. The last two fields of \<open>Call\<close> are
  the attributes \<open>starargs\<close> and \<open>kwargs\<close> that \<open>getattr(node, 'starargs', None)\<close> and
  \<open>getattr(node, 'kwargs', None)\<close> read: \<open>None\<close> on every node the parser makes, something
  else only on a node on which other code has set them.
\<close>

datatype expr =
    Name string
  | Constant string
  | Attribute expr string
  | Call expr "expr list" "keyword list" "expr option" "expr option"
  | Starred expr
  | OtherExpr string "expr list"
and keyword = Keyword "string option" expr

text \<open>
  Statements: a function definition has a name, parameter names, default values, a body
  and decorators; \<open>OtherStmt\<close> is any compound or simple statement with its expressions
  and its nested statements.
\<close>

datatype stmt =
    ExprStmt expr
  | Assign "expr list" expr
  | Return "expr option"
  | FunctionDef string "string list" "expr list" "stmt list" "expr list"
  | OtherStmt string "expr list" "stmt list"

text \<open>
  The transformer. \<open>tools.ast2code\<close>, which turns the function part of a call into text,
  is not part of the sources: it is the field \<open>ast2code\<close>. The constructor sorts the
  arguments to append.
\<close>

record transformer =
  ast2code :: "expr \<Rightarrow> string"
  func_name :: string
  arg_to_append :: "string list"
  remove_self :: "string option"

definition FuncTransformer ::
  "(expr \<Rightarrow> string) \<Rightarrow> string \<Rightarrow> string list \<Rightarrow> string option \<Rightarrow> transformer" where
  "FuncTransformer unparse name args rm =
     \<lparr>ast2code = unparse, func_name = name, arg_to_append = sort args, remove_self = rm\<rparr>"

text \<open>
  \<open>if self.remove_self: if args[0].id == self.remove_self: args.pop(0)\<close>. An empty name is
  false; \<open>args[0]\<close> of no arguments is an \<open>IndexError\<close>; only a \<open>Name\<close> has an \<open>id\<close>.
\<close>

definition drop_self :: "transformer \<Rightarrow> expr list \<Rightarrow> py_error + expr list" where
  "drop_self T args =
     (case remove_self T of
        None \<Rightarrow> Inr args
      | Some s \<Rightarrow>
          if s = [] then Inr args
          else (case args of
                  [] \<Rightarrow> Inl IndexError
                | Name n # rest \<Rightarrow> if n = s then Inr rest else Inr args
                | _ # _ \<Rightarrow> Inl AttributeError))"

text \<open>The keywords \<open>k=k\<close> parsed from \<open>f(k1=k1, k2=k2, ...)\<close>.\<close>

definition new_keywords :: "transformer \<Rightarrow> keyword list" where
  "new_keywords T = map (\<lambda>k. Keyword (Some k) (Name k)) (arg_to_append T)"

text \<open>
  \<open>visit\<close> is \<open>NodeTransformer.visit\<close>: \<open>visit_Call\<close> on a call and \<open>generic_visit\<close>, which
  visits the children, on every other node. \<open>visit_Call\<close> looks at \<open>starargs\<close> and
  \<open>kwargs\<close>, then compares the text of the function with the call to rewrite; a call
  that matches has the children of its arguments and keywords visited and is rebuilt, any
  other call is returned as it is, unvisited.
\<close>

fun visit :: "transformer \<Rightarrow> expr \<Rightarrow> py_error + expr"
  and generic_visit :: "transformer \<Rightarrow> expr \<Rightarrow> py_error + expr"
  and visit_all :: "transformer \<Rightarrow> expr list \<Rightarrow> py_error + expr list"
  and generic_visit_all :: "transformer \<Rightarrow> expr list \<Rightarrow> py_error + expr list"
  and visit_keywords :: "transformer \<Rightarrow> keyword list \<Rightarrow> py_error + keyword list"
where
  "visit T (Call f args kws starargs kwargs) =
     (if starargs \<noteq> None then Inl ValueError
      else if kwargs \<noteq> None then Inl ValueError
      else if ast2code T f = func_name T then
        (case generic_visit_all T args of
           Inl e \<Rightarrow> Inl e
         | Inr args' \<Rightarrow>
             (case drop_self T args' of
                Inl e \<Rightarrow> Inl e
              | Inr args'' \<Rightarrow>
                  (case visit_keywords T kws of
                     Inl e \<Rightarrow> Inl e
                   | Inr kws' \<Rightarrow> Inr (Call f args'' (kws' @ new_keywords T) None None))))
      else Inr (Call f args kws starargs kwargs))"
| "visit T (Name n) = Inr (Name n)"
| "visit T (Constant c) = Inr (Constant c)"
| "visit T (Attribute e a) = (case visit T e of Inl x \<Rightarrow> Inl x | Inr e' \<Rightarrow> Inr (Attribute e' a))"
| "visit T (Starred e) = (case visit T e of Inl x \<Rightarrow> Inl x | Inr e' \<Rightarrow> Inr (Starred e'))"
| "visit T (OtherExpr tag es) =
     (case visit_all T es of Inl x \<Rightarrow> Inl x | Inr es' \<Rightarrow> Inr (OtherExpr tag es'))"
| "generic_visit T (Call f args kws starargs kwargs) =
     (case visit T f of
        Inl x \<Rightarrow> Inl x
      | Inr f' \<Rightarrow>
          (case visit_all T args of
             Inl x \<Rightarrow> Inl x
           | Inr args' \<Rightarrow>
               (case visit_keywords T kws of
                  Inl x \<Rightarrow> Inl x
                | Inr kws' \<Rightarrow> Inr (Call f' args' kws' starargs kwargs))))"
| "generic_visit T (Name n) = Inr (Name n)"
| "generic_visit T (Constant c) = Inr (Constant c)"
| "generic_visit T (Attribute e a) =
     (case visit T e of Inl x \<Rightarrow> Inl x | Inr e' \<Rightarrow> Inr (Attribute e' a))"
| "generic_visit T (Starred e) =
     (case visit T e of Inl x \<Rightarrow> Inl x | Inr e' \<Rightarrow> Inr (Starred e'))"
| "generic_visit T (OtherExpr tag es) =
     (case visit_all T es of Inl x \<Rightarrow> Inl x | Inr es' \<Rightarrow> Inr (OtherExpr tag es'))"
| "visit_all T [] = Inr []"
| "visit_all T (e # es) =
     (case visit T e of
        Inl x \<Rightarrow> Inl x
      | Inr e' \<Rightarrow> (case visit_all T es of Inl x \<Rightarrow> Inl x | Inr es' \<Rightarrow> Inr (e' # es')))"
| "generic_visit_all T [] = Inr []"
| "generic_visit_all T (e # es) =
     (case generic_visit T e of
        Inl x \<Rightarrow> Inl x
      | Inr e' \<Rightarrow>
          (case generic_visit_all T es of Inl x \<Rightarrow> Inl x | Inr es' \<Rightarrow> Inr (e' # es')))"
| "visit_keywords T [] = Inr []"
| "visit_keywords T (Keyword a v # ks) =
     (case visit T v of
        Inl x \<Rightarrow> Inl x
      | Inr v' \<Rightarrow>
          (case visit_keywords T ks of Inl x \<Rightarrow> Inl x | Inr ks' \<Rightarrow> Inr (Keyword a v' # ks')))"

text \<open>Statements have no visitor of their own: their children are visited.\<close>

fun visit_stmt :: "transformer \<Rightarrow> stmt \<Rightarrow> py_error + stmt"
  and visit_stmts :: "transformer \<Rightarrow> stmt list \<Rightarrow> py_error + stmt list"
where
  "visit_stmt T (ExprStmt e) = (case visit T e of Inl x \<Rightarrow> Inl x | Inr e' \<Rightarrow> Inr (ExprStmt e'))"
| "visit_stmt T (Assign targets v) =
     (case visit_all T targets of
        Inl x \<Rightarrow> Inl x
      | Inr targets' \<Rightarrow> (case visit T v of Inl x \<Rightarrow> Inl x | Inr v' \<Rightarrow> Inr (Assign targets' v')))"
| "visit_stmt T (Return None) = Inr (Return None)"
| "visit_stmt T (Return (Some e)) =
     (case visit T e of Inl x \<Rightarrow> Inl x | Inr e' \<Rightarrow> Inr (Return (Some e')))"
| "visit_stmt T (FunctionDef name params defaults body decorator_list) =
     (case visit_all T defaults of
        Inl x \<Rightarrow> Inl x
      | Inr defaults' \<Rightarrow>
          (case visit_stmts T body of
             Inl x \<Rightarrow> Inl x
           | Inr body' \<Rightarrow>
               (case visit_all T decorator_list of
                  Inl x \<Rightarrow> Inl x
                | Inr decorator_list' \<Rightarrow>
                    Inr (FunctionDef name params defaults' body' decorator_list'))))"
| "visit_stmt T (OtherStmt tag es ss) =
     (case visit_all T es of
        Inl x \<Rightarrow> Inl x
      | Inr es' \<Rightarrow>
          (case visit_stmts T ss of Inl x \<Rightarrow> Inl x | Inr ss' \<Rightarrow> Inr (OtherStmt tag es' ss')))"
| "visit_stmts T [] = Inr []"
| "visit_stmts T (s # ss) =
     (case visit_stmt T s of
        Inl x \<Rightarrow> Inl x
      | Inr s' \<Rightarrow> (case visit_stmts T ss of Inl x \<Rightarrow> Inl x | Inr ss' \<Rightarrow> Inr (s' # ss')))"

text \<open>\<open>_replace_func\<close>, given the tree of a module.\<close>

definition replace_func ::
  "(expr \<Rightarrow> string) \<Rightarrow> stmt list \<Rightarrow> string \<Rightarrow> string list \<Rightarrow> string option
    \<Rightarrow> py_error + stmt list" where
  "replace_func unparse tree func_call args rm =
     visit_stmts (FuncTransformer unparse func_call args rm) tree"

text \<open>
  An unparser for the function part of a call: a name, or an attribute chain in dotted
  form.
\<close>

fun dotted :: "expr \<Rightarrow> string" where
  "dotted (Name n) = n"
| "dotted (Attribute e a) = dotted e @ ''.'' @ a"
| "dotted _ = ''''"

text \<open>
  The tree of
  \<^verbatim>\<open>def update(self, _t): self.integral(*self.xs, **opts)\<close>
\<close>

definition variadic_update :: "stmt list" where
  "variadic_update =
     [FunctionDef ''update'' [''self'', ''_t''] []
        [ExprStmt (Call (Attribute (Name ''self'') ''integral'')
            [Starred (Attribute (Name ''self'') ''xs'')] [Keyword None (Name ''opts'')] None None)]
        []]"


text \<open>A tree as the parser makes it: no call node carries \<open>starargs\<close> or \<open>kwargs\<close>.\<close>

fun parsed :: "expr \<Rightarrow> bool"
  and parsed_keyword :: "keyword \<Rightarrow> bool"
where
  "parsed (Name n) = True"
| "parsed (Constant c) = True"
| "parsed (Attribute e a) = parsed e"
| "parsed (Call f args kws starargs kwargs) =
     (starargs = None \<and> kwargs = None \<and> parsed f \<and> list_all parsed args
      \<and> list_all parsed_keyword kws)"
| "parsed (Starred e) = parsed e"
| "parsed (OtherExpr tag es) = list_all parsed es"
| "parsed_keyword (Keyword a v) = parsed v"

section \<open>The attribute-access analyzer (\<open>brainpy/math/numpy/ast2numba.py\<close>)\<close>

text \<open>
  The object graph is an arena: an object has a name, may be a \<open>DynamicSystem\<close>, and has
  attributes. \<open>getattr\<close> finds an instance of \<open>Base\<close> (another object of the arena), a
  \<open>math.Variable\<close>, a \<open>RandomState\<close>, a callable, or any other data. Hosts are not
  \<open>Container\<close>s: that branch of \<open>analyze_cls_func\<close> is not modelled.
\<close>

type_synonym obj_id = nat

text \<open>
  What \<open>inspect.getsource\<close>, \<open>ast.parse\<close>, \<open>inspect.getclosurevars\<close> and the regular
  expression give for a function: the parts of its definition, the names of its closure,
  and \<open>self_data\<close>, the attribute chains found in its text, each split at the dots, in
  the order in which \<open>list(set(...))\<close> happens to list them.
\<close>

record source =
  src_name :: string
  src_params :: "string list"
  src_defaults :: "expr list"
  src_body :: "stmt list"
  src_decorators :: "expr list"
  src_chains :: "string list list"
  src_closure :: "string list"

text \<open>
  An integrator carries \<open>brainpy_data\<close>: whether its method is an exponential one, its
  generated code, and \<open>raw_func\<close>, the functions its code calls, by name and in the order
  of the dictionary. Such a function is a compiled \<open>Dispatcher\<close> or a function with its
  source and, for a bound method, its owner. \<open>ig_self\<close> is the owner of the integrator
  itself when it is a bound method.
\<close>

datatype raw_func = RawDispatcher | RawFunction "obj_id option" source

record integrator =
  ig_exponential :: bool
  ig_source :: source
  ig_self :: "obj_id option"
  ig_raw_func :: "(string \<times> raw_func) list"

text \<open>
  A callable is a bound method with its owner (\<open>__self__\<close>), an integrator (its name
  starts with \<open>DE_INT\<close>) or any other function; the flag of the latter says that it is no
  \<open>Dispatcher\<close> and of no numba type, so that \<open>analyze_func\<close> compiles it. A bound method
  whose owner is no \<open>DynamicSystem\<close> is taken to be such a function.
\<close>

datatype callable = BoundMethod obj_id source | PlainFunction bool | Integrator integrator

datatype attr = ABase obj_id | AVariable | ARandomState | ACallable callable | AData

record obj =
  oname :: string
  is_dynamical_system :: bool
  attrs :: "string \<Rightarrow> attr option"

type_synonym graph = "obj_id \<Rightarrow> obj"

text \<open>
  The loop \<open>for i in range(1, len(split_keys))\<close> with its \<open>else\<close> clause: from the host,
  follow the attributes of the chain while they are instances of \<open>Base\<close>. The result is
  the owner, the index \<open>i\<close> and the attribute found there; a chain that is used up raises
  \<open>BrainPyError\<close>.
\<close>

fun walk :: "graph \<Rightarrow> obj_id \<Rightarrow> string list \<Rightarrow> nat \<Rightarrow> py_error + (obj_id \<times> nat \<times> attr)" where
  "walk G owner [] i = Inl BrainPyError"
| "walk G owner (a # rest) i =
     (case attrs (G owner) a of
        None \<Rightarrow> Inl AttributeError
      | Some (ABase next_owner) \<Rightarrow> walk G next_owner rest (i + 1)
      | Some dat \<Rightarrow> Inr (owner, i, dat))"

text \<open>\<open>'.'.join(...)\<close>\<close>

fun join_dots :: "string list \<Rightarrow> string" where
  "join_dots [] = []"
| "join_dots [s] = s"
| "join_dots (s # rest) = s @ ''.'' @ join_dots rest"

text \<open>
  Generated source is kept as the syntax tree and the substitutions: the text is
  \<open>tools.word_replace(tools.ast2code(tree), data_to_replace)\<close>, made by two functions that
  are not part of the sources. A compiled function is the function of that name defined
  by generated source, the compilation of a callable as it is, or the callable itself.
\<close>

datatype compiled =
    Compiled string "stmt list" "string \<Rightarrow> string option"
  | JitOf callable
  | Uncompiled callable

datatype scope_val = ClosureVar | NpRandom | CompiledFunc compiled | AttrData obj_id string

text \<open>The dictionary \<open>dict(func=..., arguments=..., arg2call=..., nodes=...)\<close>.\<close>

record analysis =
  r_func :: compiled
  r_arguments :: "string fset"
  r_arg2call :: "string \<Rightarrow> string option"
  r_nodes :: "string \<Rightarrow> obj_id option"

text \<open>The variables of the loop over \<open>self_data\<close> in \<open>_analyze_cls_func\<close>.\<close>

record astate =
  st_tree :: "stmt list"
  st_arguments :: "string fset"
  st_arg2call :: "string \<Rightarrow> string option"
  st_nodes :: "string \<Rightarrow> obj_id option"
  st_code_scope :: "string \<Rightarrow> scope_val option"
  st_data_to_replace :: "string \<Rightarrow> string option"

text \<open>
  One round of the loop, for one chain. \<open>analyze_func\<close> is the analysis of a nested
  callable; its result \<open>None\<close> is the empty dictionary. The set of arguments reaches
  \<open>_replace_func\<close> as a list of its elements, which the transformer sorts.
\<close>

definition analyze_key ::
  "(expr \<Rightarrow> string) \<Rightarrow> graph \<Rightarrow> obj_id \<Rightarrow> (callable \<Rightarrow> py_error + analysis option)
    \<Rightarrow> string list \<Rightarrow> astate \<Rightarrow> py_error + astate" where
  "analyze_key unparse G host analyze_func split_keys st =
     (if length split_keys < 2 then Inl BrainPyError
      else case walk G host (tl split_keys) 1 of
        Inl e \<Rightarrow> Inl e
      | Inr (owner, i, dat) \<Rightarrow>
          (let key = join_dots (take (i + 1) split_keys);
               hoisted = oname (G owner) @ ''_'' @ split_keys ! i
           in case dat of
             AVariable \<Rightarrow>
               Inr (st\<lparr>st_arguments := finsert hoisted (st_arguments st),
                       st_arg2call := (st_arg2call st)
                          (hoisted \<mapsto> oname (G owner) @ ''.'' @ last split_keys @ ''.value''),
                       st_nodes := (st_nodes st)(oname (G owner) \<mapsto> owner),
                       st_data_to_replace := (st_data_to_replace st)(key \<mapsto> hoisted)\<rparr>)
           | ARandomState \<Rightarrow>
               Inr (st\<lparr>st_data_to_replace := (st_data_to_replace st)(key \<mapsto> hoisted),
                       st_code_scope := (st_code_scope st)(hoisted \<mapsto> NpRandom)\<rparr>)
           | ACallable c \<Rightarrow>
               if length split_keys \<noteq> i + 1 then Inl AssertionError
               else
                 (case analyze_func c of
                    Inl e \<Rightarrow> Inl e
                  | Inr None \<Rightarrow> Inr st
                  | Inr (Some r) \<Rightarrow>
                      (case replace_func unparse (st_tree st) key
                              (sorted_list_of_fset (r_arguments r)) None of
                         Inl e \<Rightarrow> Inl e
                       | Inr tree' \<Rightarrow>
                           Inr (st\<lparr>st_tree := tree',
                                   st_arguments := st_arguments st |\<union>| r_arguments r,
                                   st_arg2call := st_arg2call st ++ r_arg2call r,
                                   st_nodes := st_nodes st ++ r_nodes r,
                                   st_code_scope := (st_code_scope st)
                                      (hoisted \<mapsto> CompiledFunc (r_func r)),
                                   st_data_to_replace :=
                                      (st_data_to_replace st)(key \<mapsto> hoisted)\<rparr>)))
           | _ \<Rightarrow>
               Inr (st\<lparr>st_code_scope := (st_code_scope st)(hoisted \<mapsto> AttrData owner (split_keys ! i)),
                       st_data_to_replace := (st_data_to_replace st)(key \<mapsto> hoisted)\<rparr>)))"

fun analyze_keys ::
  "(expr \<Rightarrow> string) \<Rightarrow> graph \<Rightarrow> obj_id \<Rightarrow> (callable \<Rightarrow> py_error + analysis option)
    \<Rightarrow> string list list \<Rightarrow> astate \<Rightarrow> py_error + astate" where
  "analyze_keys unparse G host analyze_func [] st = Inr st"
| "analyze_keys unparse G host analyze_func (k # ks) st =
     (case analyze_key unparse G host analyze_func k st of
        Inl e \<Rightarrow> Inl e
      | Inr st' \<Rightarrow> analyze_keys unparse G host analyze_func ks st')"

text \<open>
  The end of \<open>_analyze_cls_func\<close>: the decorators go, the sorted arguments are appended
  to the parameters, each with the default \<open>None\<close>.
\<close>

fun final_code :: "astate \<Rightarrow> py_error + astate" where
  "final_code st =
     (case st_tree st of
        FunctionDef name params defaults body decorator_list # rest \<Rightarrow>
          Inr (st\<lparr>st_tree :=
            FunctionDef name (params @ sorted_list_of_fset (st_arguments st))
              (defaults @ map (\<lambda>_. Constant ''None'') (sorted_list_of_fset (st_arguments st)))
              body [] # rest\<rparr>)
      | [] \<Rightarrow> Inl IndexError
      | _ \<Rightarrow> Inl AttributeError)"

text \<open>
  \<open>_analyze_cls_func\<close>. \<open>profile.CLASS_KEYWORDS\<close> is not part of the sources: it is the
  parameter \<open>class_keywords\<close>.
\<close>

definition analyze_cls_func_code ::
  "(expr \<Rightarrow> string) \<Rightarrow> string list \<Rightarrow> graph \<Rightarrow> obj_id \<Rightarrow> source
    \<Rightarrow> (string \<Rightarrow> scope_val option) \<Rightarrow> (callable \<Rightarrow> py_error + analysis option)
    \<Rightarrow> py_error + astate" where
  "analyze_cls_func_code unparse class_keywords G host src code_scope analyze_func =
     (case src_params src of
        [] \<Rightarrow> Inl IndexError
      | cls_name # params \<Rightarrow>
          if cls_name \<notin> set class_keywords then Inl CodeError
          else
            (case analyze_keys unparse G host analyze_func (src_chains src)
                    \<lparr>st_tree = [FunctionDef (src_name src) params (src_defaults src)
                                  (src_body src) (src_decorators src)],
                     st_arguments = {||}, st_arg2call = Map.empty, st_nodes = Map.empty,
                     st_code_scope = code_scope, st_data_to_replace = Map.empty\<rparr> of
               Inl e \<Rightarrow> Inl e
             | Inr st \<Rightarrow> final_code st))"

text \<open>\<open>analyze_cls_func\<close>, for a host that is no \<open>Container\<close>.\<close>

definition analyze_cls_func ::
  "(expr \<Rightarrow> string) \<Rightarrow> string list \<Rightarrow> graph \<Rightarrow> (callable \<Rightarrow> py_error + analysis option)
    \<Rightarrow> obj_id \<Rightarrow> source \<Rightarrow> py_error + analysis" where
  "analyze_cls_func unparse class_keywords G analyze_func host src =
     (case analyze_cls_func_code unparse class_keywords G host src
             (map_of (map (\<lambda>v. (v, ClosureVar)) (src_closure src))) analyze_func of
        Inl e \<Rightarrow> Inl e
      | Inr st \<Rightarrow>
          Inr \<lparr>r_func = Compiled (src_name src) (st_tree st) (st_data_to_replace st),
               r_arguments = st_arguments st,
               r_arg2call = st_arg2call st,
               r_nodes = [oname (G host) \<mapsto> host] ++ st_nodes st\<rparr>)"

text \<open>
  One round of the loop over \<open>raw_func\<close> in \<open>analyze_intg_func\<close>. The flag is
  \<open>need_recompile\<close>. \<open>f_node\<close> is the owner of the integrator when that is a
  \<open>DynamicSystem\<close>, and \<open>remove_self\<close> the name of its first parameter then.
\<close>

definition intg_step ::
  "(expr \<Rightarrow> string) \<Rightarrow> string list \<Rightarrow> graph \<Rightarrow> (callable \<Rightarrow> py_error + analysis option)
    \<Rightarrow> obj_id option \<Rightarrow> string option \<Rightarrow> string \<times> raw_func \<Rightarrow> bool \<times> astate
    \<Rightarrow> py_error + bool \<times> astate" where
  "intg_step unparse class_keywords G analyze_func f_node rm_self item acc =
     (case (item, acc) of ((key, func), (need_recompile, st)) \<Rightarrow>
        (case func of
           RawDispatcher \<Rightarrow> Inr (need_recompile, st)
         | RawFunction self src \<Rightarrow>
             (case (case f_node of
                      Some h \<Rightarrow> Some h
                    | None \<Rightarrow>
                        (case self of
                           Some h \<Rightarrow> if is_dynamical_system (G h) then Some h else None
                         | None \<Rightarrow> None)) of
                Some func_node \<Rightarrow>
                  (case analyze_cls_func unparse class_keywords G analyze_func func_node src of
                     Inl e \<Rightarrow> Inl e
                   | Inr r \<Rightarrow>
                       (case (if r_arguments r \<noteq> {||} \<or> (rm_self \<noteq> None \<and> rm_self \<noteq> Some [])
                              then replace_func unparse (st_tree st) key
                                     (sorted_list_of_fset (r_arguments r)) rm_self
                              else Inr (st_tree st)) of
                          Inl e \<Rightarrow> Inl e
                        | Inr tree' \<Rightarrow>
                            Inr (True,
                                 st\<lparr>st_tree := tree',
                                    st_code_scope := (st_code_scope st)(key \<mapsto> CompiledFunc (r_func r)),
                                    st_arguments := st_arguments st |\<union>| r_arguments r,
                                    st_arg2call := st_arg2call st ++ r_arg2call r,
                                    st_nodes := (st_nodes st ++ r_nodes r)
                                       (oname (G func_node) \<mapsto> func_node)\<rparr>)))
              | None \<Rightarrow>
                  Inr (True,
                       st\<lparr>st_code_scope := (st_code_scope st)
                            (key \<mapsto> CompiledFunc
                               (JitOf (case self of
                                         Some h \<Rightarrow> BoundMethod h src
                                       | None \<Rightarrow> PlainFunction True)))\<rparr>))))"

fun intg_loop ::
  "(expr \<Rightarrow> string) \<Rightarrow> string list \<Rightarrow> graph \<Rightarrow> (callable \<Rightarrow> py_error + analysis option)
    \<Rightarrow> obj_id option \<Rightarrow> string option \<Rightarrow> (string \<times> raw_func) list \<Rightarrow> bool \<times> astate
    \<Rightarrow> py_error + bool \<times> astate" where
  "intg_loop unparse class_keywords G analyze_func f_node rm_self [] acc = Inr acc"
| "intg_loop unparse class_keywords G analyze_func f_node rm_self (item # items) acc =
     (case intg_step unparse class_keywords G analyze_func f_node rm_self item acc of
        Inl e \<Rightarrow> Inl e
      | Inr acc' \<Rightarrow> intg_loop unparse class_keywords G analyze_func f_node rm_self items acc')"

text \<open>
  The start of \<open>analyze_intg_func\<close>: when the integrator is a method of a
  \<open>DynamicSystem\<close>, that owner is \<open>f_node\<close>, and the first parameter is removed from the
  signature and remembered as \<open>remove_self\<close>.
\<close>

definition intg_self ::
  "graph \<Rightarrow> integrator \<Rightarrow> py_error + obj_id option \<times> string option \<times> string list" where
  "intg_self G ig =
     (case ig_self ig of
        None \<Rightarrow> Inr (None, None, src_params (ig_source ig))
      | Some h \<Rightarrow>
          if is_dynamical_system (G h) then
            (case src_params (ig_source ig) of
               [] \<Rightarrow> Inl IndexError
             | a # params \<Rightarrow> Inr (Some h, Some a, params))
          else Inr (None, None, src_params (ig_source ig)))"

text \<open>
  The end of \<open>analyze_intg_func\<close>: if anything was compiled, the signature is extended as
  at the end of \<open>_analyze_cls_func\<close>; if not, the integrator is returned as it is.
\<close>

definition intg_result :: "integrator \<Rightarrow> bool \<times> astate \<Rightarrow> py_error + analysis" where
  "intg_result ig acc =
     (case acc of (need_recompile, st) \<Rightarrow>
        if need_recompile then
          (case final_code st of
             Inl e \<Rightarrow> Inl e
           | Inr st' \<Rightarrow>
               Inr \<lparr>r_func = Compiled (src_name (ig_source ig)) (st_tree st') Map.empty,
                    r_arguments = st_arguments st', r_arg2call = st_arg2call st',
                    r_nodes = st_nodes st'\<rparr>)
        else
          Inr \<lparr>r_func = Uncompiled (Integrator ig),
               r_arguments = st_arguments st, r_arg2call = st_arg2call st,
               r_nodes = st_nodes st\<rparr>)"

text \<open>
  \<open>analyze_intg_func\<close>. An exponential integrator goes through \<open>analyze_cls_func\<close>, with
  its owner as host; any other one through the loop over \<open>raw_func\<close>.
\<close>

definition analyze_intg_func ::
  "(expr \<Rightarrow> string) \<Rightarrow> string list \<Rightarrow> graph \<Rightarrow> (callable \<Rightarrow> py_error + analysis option)
    \<Rightarrow> integrator \<Rightarrow> py_error + analysis" where
  "analyze_intg_func unparse class_keywords G analyze_func ig =
     (if ig_exponential ig then
        (case ig_self ig of
           None \<Rightarrow> Inl AttributeError
         | Some h \<Rightarrow> analyze_cls_func unparse class_keywords G analyze_func h (ig_source ig))
      else
        (case intg_self G ig of
           Inl e \<Rightarrow> Inl e
         | Inr (f_node, rm_self, params) \<Rightarrow>
             (case intg_loop unparse class_keywords G analyze_func f_node rm_self
                     (ig_raw_func ig)
                     (False,
                      \<lparr>st_tree = [FunctionDef (src_name (ig_source ig)) params
                                    (src_defaults (ig_source ig)) (src_body (ig_source ig))
                                    (src_decorators (ig_source ig))],
                       st_arguments = {||}, st_arg2call = Map.empty, st_nodes = Map.empty,
                       st_code_scope = map_of (map (\<lambda>v. (v, ClosureVar))
                                                 (src_closure (ig_source ig))),
                       st_data_to_replace = Map.empty\<rparr>) of
                Inl e \<Rightarrow> Inl e
              | Inr acc \<Rightarrow> intg_result ig acc)))"

text \<open>
  \<open>analyze_func\<close>. The analysis of a method analyses the callables its chains lead to, and
  so on; \<open>depth\<close> is the number of nested analyses the interpreter's recursion limit
  leaves room for, and going deeper raises \<open>RecursionError\<close>.
\<close>

primrec analyze_func ::
  "(expr \<Rightarrow> string) \<Rightarrow> string list \<Rightarrow> graph \<Rightarrow> nat \<Rightarrow> callable \<Rightarrow> py_error + analysis option" where
  "analyze_func unparse class_keywords G 0 = (\<lambda>f. Inl RecursionError)"
| "analyze_func unparse class_keywords G (Suc depth) =
     (\<lambda>f. case f of
        BoundMethod host src \<Rightarrow>
          if is_dynamical_system (G host) then
            (case analyze_cls_func unparse class_keywords G
                    (analyze_func unparse class_keywords G depth) host src of
               Inl e \<Rightarrow> Inl e
             | Inr r \<Rightarrow> Inr (Some r))
          else
            Inr (Some \<lparr>r_func = JitOf f, r_arguments = {||}, r_arg2call = Map.empty,
                       r_nodes = Map.empty\<rparr>)
      | PlainFunction needs_jit \<Rightarrow>
          if needs_jit then
            Inr (Some \<lparr>r_func = JitOf f, r_arguments = {||}, r_arg2call = Map.empty,
                       r_nodes = Map.empty\<rparr>)
          else Inr None
      | Integrator ig \<Rightarrow>
          (case analyze_intg_func unparse class_keywords G
                  (analyze_func unparse class_keywords G depth) ig of
             Inl e \<Rightarrow> Inl e
           | Inr r \<Rightarrow> Inr (Some r)))"

text \<open>
  Two objects in a cycle: \<open>A.b\<close> is \<open>B\<close> and \<open>B.a\<close> is \<open>A\<close>. \<open>A.update\<close> calls
  \<open>self.b.step\<close> and \<open>B.step\<close> calls \<open>self.a.update\<close>; \<open>probe\<close> is a method of \<open>A\<close> whose
  body is \<open>len(self.b.a)\<close>.
\<close>

definition method_source :: "string \<Rightarrow> stmt list \<Rightarrow> string list list \<Rightarrow> source" where
  "method_source name body paths =
     \<lparr>src_name = name, src_params = [''self'', ''_t''], src_defaults = [], src_body = body,
      src_decorators = [], src_chains = paths, src_closure = []\<rparr>"

definition update_A :: source where
  "update_A = method_source ''update''
     [ExprStmt (Call (Attribute (Attribute (Name ''self'') ''b'') ''step'') [Name ''_t''] [] None None)]
     [[''self'', ''b'', ''step'']]"

definition step_B :: source where
  "step_B = method_source ''step''
     [ExprStmt (Call (Attribute (Attribute (Name ''self'') ''a'') ''update'') [Name ''_t''] [] None None)]
     [[''self'', ''a'', ''update'']]"

definition cyclic_graph :: graph where
  "cyclic_graph i =
     (if i = 0 then
        \<lparr>oname = ''A'', is_dynamical_system = True,
         attrs = [''b'' \<mapsto> ABase 1, ''V'' \<mapsto> AVariable,
                  ''update'' \<mapsto> ACallable (BoundMethod 0 update_A)]\<rparr>
      else
        \<lparr>oname = ''B'', is_dynamical_system = True,
         attrs = [''a'' \<mapsto> ABase 0, ''w'' \<mapsto> AVariable,
                  ''step'' \<mapsto> ACallable (BoundMethod 1 step_B)]\<rparr>)"

definition probe :: source where
  "probe = method_source ''probe''
     [ExprStmt (Call (Name ''len'') [Attribute (Attribute (Name ''self'') ''b'') ''a''] [] None None)]
     [[''self'', ''b'', ''a'']]"

text \<open>The object a path of attributes leads to, through instances of \<open>Base\<close> only.\<close>

fun follow :: "graph \<Rightarrow> obj_id \<Rightarrow> string list \<Rightarrow> obj_id option" where
  "follow G owner [] = Some owner"
| "follow G owner (a # rest) =
     (case attrs (G owner) a of Some (ABase next_owner) \<Rightarrow> follow G next_owner rest | _ \<Rightarrow> None)"

section \<open>Order of analysis: auxiliary notions\<close>

text \<open>
  What follows serves the proof that the result of \<open>_analyze_cls_func\<close> does not depend
  on the order of \<open>self_data\<close>. \<open>returned\<close> forgets which exception was raised;
  \<open>commutes f g x\<close> says that the partial functions \<open>f\<close> and \<open>g\<close> can be applied to \<open>x\<close> in
  either order; \<open>both\<close> applies two partial functions to the two parts of a pair.
\<close>

definition returned :: "'e + 'a \<Rightarrow> 'a option" where
  "returned r = (case r of Inl _ \<Rightarrow> None | Inr x \<Rightarrow> Some x)"

definition commutes :: "('a \<Rightarrow> 'a option) \<Rightarrow> ('a \<Rightarrow> 'a option) \<Rightarrow> 'a \<Rightarrow> bool" where
  "commutes f g x \<longleftrightarrow> Option.bind (f x) g = Option.bind (g x) f"

definition both :: "('a \<Rightarrow> 'a option) \<Rightarrow> ('b \<Rightarrow> 'b option) \<Rightarrow> 'a \<times> 'b \<Rightarrow> ('a \<times> 'b) option" where
  "both f g = (\<lambda>(x, y). Option.bind (f x) (\<lambda>x'. Option.bind (g y) (\<lambda>y'. Some (x', y'))))"

text \<open>Two transformers that rewrite different calls, neither removing \<open>self\<close>.\<close>

definition apart :: "transformer \<Rightarrow> transformer \<Rightarrow> bool" where
  "apart T1 T2 \<longleftrightarrow>
     ast2code T1 = ast2code T2 \<and> func_name T1 \<noteq> func_name T2
     \<and> remove_self T1 = None \<and> remove_self T2 = None"

abbreviation try_visit :: "transformer \<Rightarrow> expr \<Rightarrow> expr option" where
  "try_visit T \<equiv> (\<lambda>e. returned (visit T e))"

abbreviation try_visit_all :: "transformer \<Rightarrow> expr list \<Rightarrow> expr list option" where
  "try_visit_all T \<equiv> (\<lambda>es. returned (visit_all T es))"

abbreviation try_visit_stmt :: "transformer \<Rightarrow> stmt \<Rightarrow> stmt option" where
  "try_visit_stmt T \<equiv> (\<lambda>s. returned (visit_stmt T s))"

abbreviation try_visit_stmts :: "transformer \<Rightarrow> stmt list \<Rightarrow> stmt list option" where
  "try_visit_stmts T \<equiv> (\<lambda>ss. returned (visit_stmts T ss))"

text \<open>The parts of a chain come from \<open>key.split('.')\<close>: none contains a dot.\<close>

definition dot_free :: "string list \<Rightarrow> bool" where
  "dot_free k = list_all (\<lambda>c. CHR ''.'' \<notin> set c) k"

text \<open>
  The generated function of a state: the syntax tree, the hoisted arguments and the
  substitutions. The source text is made from the tree and the substitutions.
\<close>

type_synonym pstate = "stmt list \<times> string fset \<times> (string \<Rightarrow> string option)"

definition generated :: "py_error + astate \<Rightarrow> pstate option" where
  "generated r =
     (case r of
        Inl _ \<Rightarrow> None
      | Inr st \<Rightarrow> Some (st_tree st, st_arguments st, st_data_to_replace st))"

text \<open>
  What one chain does to the generated function, whatever the state: the call it has
  rewritten (with the arguments to append), the arguments it hoists, the substitution it
  records.
\<close>

datatype effect = Effect "(string \<times> string list) option" "string fset" "(string \<times> string) option"

definition effect_of ::
  "graph \<Rightarrow> obj_id \<Rightarrow> (callable \<Rightarrow> py_error + analysis option) \<Rightarrow> string list \<Rightarrow> effect option" where
  "effect_of G host sub k =
     (if length k < 2 then None
      else case walk G host (tl k) 1 of
        Inl _ \<Rightarrow> None
      | Inr (owner, i, dat) \<Rightarrow>
          (let key = join_dots (take (i + 1) k);
               hoisted = oname (G owner) @ ''_'' @ k ! i
           in case dat of
             AVariable \<Rightarrow> Some (Effect None {|hoisted|} (Some (key, hoisted)))
           | ACallable c \<Rightarrow>
               if length k \<noteq> i + 1 then None
               else
                 (case sub c of
                    Inl _ \<Rightarrow> None
                  | Inr None \<Rightarrow> Some (Effect None {||} None)
                  | Inr (Some r) \<Rightarrow>
                      Some (Effect (Some (key, sorted_list_of_fset (r_arguments r)))
                              (r_arguments r) (Some (key, hoisted))))
           | _ \<Rightarrow> Some (Effect None {||} (Some (key, hoisted)))))"

fun rewrite_of :: "(expr \<Rightarrow> string) \<Rightarrow> effect \<Rightarrow> stmt list \<Rightarrow> stmt list option" where
  "rewrite_of u (Effect None A rp) t = Some t"
| "rewrite_of u (Effect (Some (f, xs)) A rp) t = returned (replace_func u t f xs None)"

fun record_of :: "effect \<Rightarrow> string fset \<times> (string \<Rightarrow> string option)
    \<Rightarrow> (string fset \<times> (string \<Rightarrow> string option)) option" where
  "record_of (Effect rw A None) (B, m) = Some (B |\<union>| A, m)"
| "record_of (Effect rw A (Some (k, h))) (B, m) = Some (B |\<union>| A, m(k \<mapsto> h))"

definition apply_effect :: "(expr \<Rightarrow> string) \<Rightarrow> effect \<Rightarrow> pstate \<Rightarrow> pstate option" where
  "apply_effect u e = both (rewrite_of u e) (record_of e)"

definition chain_step ::
  "(expr \<Rightarrow> string) \<Rightarrow> graph \<Rightarrow> obj_id \<Rightarrow> (callable \<Rightarrow> py_error + analysis option)
    \<Rightarrow> string list \<Rightarrow> pstate option \<Rightarrow> pstate option" where
  "chain_step u G host sub k so =
     Option.bind so (\<lambda>p. Option.bind (effect_of G host sub k) (\<lambda>e. apply_effect u e p))"

text \<open>
  A neuron \<open>N\<close> with the variables \<open>V\<close>, \<open>gNa\<close> and \<open>gK\<close>:
  \<^verbatim>\<open>def update(self, _t): self.integral(self.V, _t)\<close> and
  \<^verbatim>\<open>def integral(self, V, t): return self.gNa + self.gK\<close>.
\<close>

definition neuron_update :: source where
  "neuron_update =
     \<lparr>src_name = ''update'', src_params = [''self'', ''_t''], src_defaults = [],
      src_body = [ExprStmt (Call (Attribute (Name ''self'') ''integral'')
                     [Attribute (Name ''self'') ''V'', Name ''_t''] [] None None)],
      src_decorators = [Name ''jit''],
      src_chains = [[''self'', ''integral''], [''self'', ''V'']], src_closure = []\<rparr>"

definition neuron_integral :: source where
  "neuron_integral =
     \<lparr>src_name = ''integral'', src_params = [''self'', ''V'', ''t''], src_defaults = [],
      src_body = [Return (Some (OtherExpr ''BinOp''
                     [Attribute (Name ''self'') ''gNa'', Attribute (Name ''self'') ''gK'']))],
      src_decorators = [],
      src_chains = [[''self'', ''gNa''], [''self'', ''gK'']], src_closure = []\<rparr>"

definition neuron_graph :: graph where
  "neuron_graph i =
     \<lparr>oname = ''N'', is_dynamical_system = True,
      attrs = [''V'' \<mapsto> AVariable, ''gNa'' \<mapsto> AVariable, ''gK'' \<mapsto> AVariable,
               ''integral'' \<mapsto> ACallable (BoundMethod 0 neuron_integral)]\<rparr>"

definition neuron_run :: "string list list \<Rightarrow> py_error + astate" where
  "neuron_run ks =
     analyze_cls_func_code dotted [''self'', ''cls''] neuron_graph 0
       (neuron_update\<lparr>src_chains := ks\<rparr>) Map.empty
       (analyze_func dotted [''self'', ''cls''] neuron_graph 2)"

text \<open>\<open>final_code\<close>, on the generated function.\<close>

definition finish :: "pstate \<Rightarrow> pstate option" where
  "finish p =
     (case p of
        (FunctionDef name params defaults body decorator_list # rest, A, m) \<Rightarrow>
          Some (FunctionDef name (params @ sorted_list_of_fset A)
                  (defaults @ map (\<lambda>_. Constant ''None'') (sorted_list_of_fset A)) body [] # rest,
                A, m)
      | _ \<Rightarrow> None)"

text \<open>
  An integrator of the neuron, \<^verbatim>\<open>def int_V(V, t): return f(V, t)\<close>, whose \<open>f\<close> is the
  method \<open>integral\<close>; and the tree and hoisted arguments of an analysis that generated
  code.
\<close>

definition neuron_integrator :: integrator where
  "neuron_integrator =
     \<lparr>ig_exponential = False,
      ig_source =
        \<lparr>src_name = ''int_V'', src_params = [''V'', ''t''], src_defaults = [],
         src_body = [Return (Some (Call (Name ''f'') [Name ''V'', Name ''t''] [] None None))],
         src_decorators = [], src_chains = [], src_closure = []\<rparr>,
      ig_self = None,
      ig_raw_func = [(''f'', RawFunction (Some 0) neuron_integral)]\<rparr>"

fun generated_tree :: "py_error + analysis \<Rightarrow> (stmt list \<times> string fset) option" where
  "generated_tree (Inr r) =
     (case r_func r of Compiled name t m \<Rightarrow> Some (t, r_arguments r) | _ \<Rightarrow> None)"
| "generated_tree (Inl e) = None"

section \<open>Theorems about the shared context\<close>

lemma range2_4: "range2 (Suc (Suc (Suc (Suc 0)))) = [0, 2]"
  by (simp add: range2_def upt_rec)

text \<open>
  C5 (the code departs from the claim). \<open>save\<close> with two positional name/value pairs stores
  the first pair and then raises \<open>IndexError\<close>: the loop steps \<open>i\<close> by two and doubles it
  again when indexing, so the second round reads \<open>args[4]\<close> of a tuple of four.
\<close>

theorem save_two_pairs_raises:
  "save empty_share two_pairs [] =
     Inl (IndexError, empty_share\<lparr>arguments := [PStr ''a'' \<mapsto> PInt 1]\<rparr>)"
  by (simp add: save_def two_pairs_def range2_4 save_item_def empty_share_def)

text \<open>
  C6. \<open>load\<close> answers \<open>'dt'\<close> through the accessor, which falls back to the global default
  time step; any other key is looked up in the arguments, then in the delays; a key in
  neither gives the default when one was passed and raises \<open>KeyError\<close> exactly when none
  was.
\<close>

theorem load_resolution:
  "load sh (PStr ''dt'') val
      = Inr (case arguments sh (PStr ''dt'') of Some v \<Rightarrow> v | None \<Rightarrow> global_dt sh)
   \<and> (key \<noteq> PStr ''dt'' \<longrightarrow>
        (\<forall>v. arguments sh key = Some v \<longrightarrow> load sh key val = Inr v)
      \<and> (\<forall>d. arguments sh key = None \<and> delays sh key = Some d \<longrightarrow> load sh key val = Inr (PDelay d))
      \<and> (arguments sh key = None \<and> delays sh key = None \<longrightarrow>
            (val \<noteq> PNone \<longrightarrow> load sh key val = Inr val)
          \<and> (load sh key val = Inl KeyError \<longleftrightarrow> val = PNone)))"
  by (auto simp: load_def dt_def)

theorem load_resolution_witness:
  "load empty_share (PStr ''dt'') PNone = Inr (PVal ())
   \<and> load (empty_share\<lparr>arguments := [PStr ''i'' \<mapsto> PInt 3]\<rparr>) (PStr ''i'') PNone = Inr (PInt 3)
   \<and> load (empty_share\<lparr>delays := [PStr ''d'' \<mapsto> ()]\<rparr>) (PStr ''d'') PNone = Inr (PDelay ())
   \<and> load empty_share (PStr ''t'') (PInt 0) = Inr (PInt 0)
   \<and> load empty_share (PStr ''t'') PNone = Inl KeyError"
  using load_resolution [of empty_share PNone "PStr ''t''"]
    load_resolution [of empty_share "PInt 0" "PStr ''t''"]
    load_resolution [of "empty_share\<lparr>arguments := [PStr ''i'' \<mapsto> PInt 3]\<rparr>" PNone "PStr ''i''"]
    load_resolution [of "empty_share\<lparr>delays := [PStr ''d'' \<mapsto> ()]\<rparr>" PNone "PStr ''d''"]
  by (simp add: empty_share_def)

section \<open>Theorems about the delay buffer\<close>

lemma load_i: "load (share_at i) (PStr ''i'') PNone = Inr (PInt i)"
  by (simp add: load_def share_at_def empty_share_def)

text \<open>
  C1 (the code departs from the claim). A concat buffer of length 2 is seeded with 9 and
  fed 1, 2, 3. The concat update stacks the new value on the old rows \<open>[1:]\<close>, so only row
  \<open>0\<close> ever changes: the buffer ends as 3, 9, 9 and not as 3, 2, 1.
\<close>

theorem concat_update_keeps_old_rows:
  "register_entry no_time (fresh_delay CONCAT_UPDATE 0 (BScalar 9)) ''e'' None (Some (SInt 2))
     = Inr concat_delay
   \<and> feed concat_delay 0 [[1], [2], [3]] = Inr (concat_delay\<lparr>data := Some [[3], [9], [9]]\<rparr>)"
  by (simp add: register_entry_def classify_step_def fresh_delay_def init_data_def
      before_rows_def concat_delay_def update_def numeral_2_eq_2)

text \<open>
  C2 (the code departs from the claim). A rotate buffer of length 3 is fed 1, 2, 3, 4 at
  the steps 0, 1, 2, 3. The writes go to the rows 3, 0, 1, 2. Read at step 3, lag 0 gives
  1 (the oldest value, not 4) and lag 3 gives 4 (the newest, not 1); read at step 4,
  lag 0 gives 2.
\<close>

theorem rotate_reads_reversed:
  "register_entry no_time (fresh_delay ROTATE_UPDATE 0 (BScalar 9)) ''e'' None (Some (SInt 3))
     = Inr rotate_delay
   \<and> feed rotate_delay 0 [[1], [2], [3], [4]]
     = Inr (rotate_delay\<lparr>data := Some [[2], [3], [4], [1]]\<rparr>)
   \<and> retrieve True (share_at 3) (rotate_delay\<lparr>data := Some [[2], [3], [4], [1]]\<rparr>) (Homo 0) None
     = Inr (Row [1])
   \<and> retrieve True (share_at 3) (rotate_delay\<lparr>data := Some [[2], [3], [4], [1]]\<rparr>) (Homo 3) None
     = Inr (Row [4])
   \<and> retrieve True (share_at 4) (rotate_delay\<lparr>data := Some [[2], [3], [4], [1]]\<rparr>) (Homo 0) None
     = Inr (Row [2])"
  by (simp add: register_entry_def classify_step_def fresh_delay_def init_data_def
      before_rows_def rotate_delay_def update_def load_i py_setitem_def retrieve_def
      delay_index_def getitem_def py_index_def numeral_3_eq_3)

subsection \<open>Reading with a zero lag\<close>









subsection \<open>Registering larger lags\<close>









section \<open>Theorems about the object JIT wrapper\<close>

lemma assign_values_all:
  "\<forall>k\<in>set ks. m k \<noteq> None \<Longrightarrow>
     snd (assign_values ks m \<sigma>)
     \<and> (\<forall>k. fst (assign_values ks m \<sigma>) k = (if k \<in> set ks then the (m k) else \<sigma> k))"
  by (induction ks arbitrary: \<sigma>) (auto split: option.splits)

lemma restore_snapshot:
  "fst (assign_values keys (vars_dict keys \<sigma>) \<sigma>') k = (if k \<in> set keys then \<sigma> k else \<sigma>' k)"
  using assign_values_all [of keys "vars_dict keys \<sigma>" \<sigma>']
  by (simp add: vars_dict_def)

text \<open>
  C10, as stated, fails. The wrapped function writes 99 to \<open>a\<close> and is then interrupted
  from the keyboard. \<open>KeyboardInterrupt\<close> is not derived from \<open>Exception\<close>, no handler
  runs: the exception leaves the call, \<open>a\<close> holds 99 and not its value 1 from before the
  call, and the context that was added is still there.
\<close>

theorem object_jit_call_interrupted:
  "snd (object_jit_call [''a'', ''b''] ''jit'' Cons (\<lambda>_. tl)
          (jitted_func [''a'', ''b''] interrupted_func) 5 world0) = Inl KeyboardInterrupt
   \<and> var_value world0 ''a'' = 1
   \<and> var_value (fst (object_jit_call [''a'', ''b''] ''jit'' Cons (\<lambda>_. tl)
          (jitted_func [''a'', ''b''] interrupted_func) 5 world0)) ''a'' = 99
   \<and> context_stack (fst (object_jit_call [''a'', ''b''] ''jit'' Cons (\<lambda>_. tl)
          (jitted_func [''a'', ''b''] interrupted_func) 5 world0)) = [''jit'']"
  by (simp add: object_jit_call_def jitted_func_def interrupted_func_def world0_def
      vars_dict_def is_Exception_def)

text \<open>
  C10, amended. When the jitted function raises an exception derived from \<open>Exception\<close>,
  the wrapper raises (the exception of the matching handler), every registered variable
  holds its value from before the call and the context is deleted. When it raises any
  other exception, that exception leaves the call, the variables stay as the function
  left them and the context is not deleted. When it returns, the wrapper returns its
  output, every registered variable holds the value the changes give it and the context
  is deleted.
\<close>

theorem object_jit_call_restores:
  "(f (vars_dict keys (var_value w)) args (var_value w) = (\<sigma>', Inl e) \<and> is_Exception e \<longrightarrow>
      snd (object_jit_call keys name add_ctx del_ctx f args w) = Inl (reraise e)
    \<and> (\<forall>k\<in>set keys.
          var_value (fst (object_jit_call keys name add_ctx del_ctx f args w)) k = var_value w k)
    \<and> context_stack (fst (object_jit_call keys name add_ctx del_ctx f args w))
        = del_ctx name (add_ctx name (context_stack w)))
   \<and> (f (vars_dict keys (var_value w)) args (var_value w) = (\<sigma>', Inl e) \<and> \<not> is_Exception e \<longrightarrow>
      object_jit_call keys name add_ctx del_ctx f args w
        = (w\<lparr>context_stack := add_ctx name (context_stack w), var_value := \<sigma>'\<rparr>, Inl e))
   \<and> (f (vars_dict keys (var_value w)) args (var_value w) = (\<sigma>', Inr (out, changes))
        \<and> (\<forall>k\<in>set keys. changes k \<noteq> None) \<longrightarrow>
      snd (object_jit_call keys name add_ctx del_ctx f args w) = Inr out
    \<and> (\<forall>k\<in>set keys.
          Some (var_value (fst (object_jit_call keys name add_ctx del_ctx f args w)) k) = changes k)
    \<and> context_stack (fst (object_jit_call keys name add_ctx del_ctx f args w))
        = del_ctx name (add_ctx name (context_stack w)))"
proof (intro conjI; rule impI)
  assume "f (vars_dict keys (var_value w)) args (var_value w) = (\<sigma>', Inl e) \<and> is_Exception e"
  then show "snd (object_jit_call keys name add_ctx del_ctx f args w) = Inl (reraise e)
    \<and> (\<forall>k\<in>set keys.
          var_value (fst (object_jit_call keys name add_ctx del_ctx f args w)) k = var_value w k)
    \<and> context_stack (fst (object_jit_call keys name add_ctx del_ctx f args w))
        = del_ctx name (add_ctx name (context_stack w))"
    by (simp add: object_jit_call_def restore_snapshot)
next
  assume "f (vars_dict keys (var_value w)) args (var_value w) = (\<sigma>', Inl e) \<and> \<not> is_Exception e"
  then show "object_jit_call keys name add_ctx del_ctx f args w
        = (w\<lparr>context_stack := add_ctx name (context_stack w), var_value := \<sigma>'\<rparr>, Inl e)"
    by (simp add: object_jit_call_def)
next
  assume a: "f (vars_dict keys (var_value w)) args (var_value w) = (\<sigma>', Inr (out, changes))
        \<and> (\<forall>k\<in>set keys. changes k \<noteq> None)"
  then have all: "snd (assign_values keys changes \<sigma>')"
    and vals: "\<And>k. fst (assign_values keys changes \<sigma>') k
                 = (if k \<in> set keys then the (changes k) else \<sigma>' k)"
    using assign_values_all [of keys changes \<sigma>'] by simp_all
  obtain \<sigma>3 where s3: "assign_values keys changes \<sigma>' = (\<sigma>3, True)"
    using all by (cases "assign_values keys changes \<sigma>'") simp
  show "snd (object_jit_call keys name add_ctx del_ctx f args w) = Inr out
    \<and> (\<forall>k\<in>set keys.
          Some (var_value (fst (object_jit_call keys name add_ctx del_ctx f args w)) k) = changes k)
    \<and> context_stack (fst (object_jit_call keys name add_ctx del_ctx f args w))
        = del_ctx name (add_ctx name (context_stack w))"
    using a s3 vals by (auto simp: object_jit_call_def)
qed

theorem object_jit_call_restores_witness:
  "snd (object_jit_call [''a'', ''b''] ''jit'' Cons (\<lambda>_. tl)
          (jitted_func [''a'', ''b''] failing_func) 5 world0) = Inl (OtherException ())
   \<and> var_value (fst (object_jit_call [''a'', ''b''] ''jit'' Cons (\<lambda>_. tl)
          (jitted_func [''a'', ''b''] failing_func) 5 world0)) ''a'' = 1
   \<and> object_jit_call [''a'', ''b''] ''jit'' Cons (\<lambda>_. tl)
          (jitted_func [''a'', ''b''] interrupted_func) 5 world0
       = (world0\<lparr>context_stack := [''jit''], var_value := (var_value world0)(''a'' := 99)\<rparr>,
          Inl KeyboardInterrupt)
   \<and> snd (object_jit_call [''a'', ''b''] ''jit'' Cons (\<lambda>_. tl)
          (jitted_func [''a'', ''b''] adding_func) 5 world0) = Inr 2
   \<and> var_value (fst (object_jit_call [''a'', ''b''] ''jit'' Cons (\<lambda>_. tl)
          (jitted_func [''a'', ''b''] adding_func) 5 world0)) ''a'' = 6"
proof -
  let ?keys = "[''a'', ''b'']"
  have fails: "jitted_func ?keys failing_func (vars_dict ?keys (var_value world0)) 5 (var_value world0)
      = ((var_value world0)(''a'' := 99), Inl (OtherException ()))
      \<and> is_Exception (OtherException ())"
    by (auto simp: jitted_func_def vars_dict_def failing_func_def world0_def fun_eq_iff
        is_Exception_def)
  have stops: "jitted_func ?keys interrupted_func (vars_dict ?keys (var_value world0)) 5 (var_value world0)
      = ((var_value world0)(''a'' := 99), Inl KeyboardInterrupt)
      \<and> \<not> is_Exception (KeyboardInterrupt :: unit jit_exception)"
    by (auto simp: jitted_func_def vars_dict_def interrupted_func_def world0_def fun_eq_iff
        is_Exception_def)
  have adds: "jitted_func ?keys adding_func (vars_dict ?keys (var_value world0)) 5 (var_value world0)
      = ((var_value world0)(''a'' := 6),
         Inr (2, vars_dict ?keys ((var_value world0)(''a'' := 6))))
      \<and> (\<forall>k\<in>set ?keys. vars_dict ?keys ((var_value world0)(''a'' := 6)) k \<noteq> None)"
    by (auto simp: jitted_func_def vars_dict_def adding_func_def world0_def fun_eq_iff)
  note restored = object_jit_call_restores [where name = "''jit''" and add_ctx = Cons
      and del_ctx = "\<lambda>_. tl" and f = "jitted_func ?keys failing_func" and keys = ?keys
      and w = world0 and args = 5, THEN conjunct1, rule_format, OF fails]
  note left = object_jit_call_restores [where name = "''jit''" and add_ctx = Cons
      and del_ctx = "\<lambda>_. tl" and f = "jitted_func ?keys interrupted_func" and keys = ?keys
      and w = world0 and args = 5, THEN conjunct2, THEN conjunct1, rule_format, OF stops]
  note updated = object_jit_call_restores [where name = "''jit''" and add_ctx = Cons
      and del_ctx = "\<lambda>_. tl" and f = "jitted_func ?keys adding_func" and keys = ?keys
      and w = world0 and args = 5, THEN conjunct2, THEN conjunct2, rule_format, OF adds]
  from restored have "snd (object_jit_call ?keys ''jit'' Cons (\<lambda>_. tl)
          (jitted_func ?keys failing_func) 5 world0) = Inl (OtherException ())"
    and "var_value (fst (object_jit_call ?keys ''jit'' Cons (\<lambda>_. tl)
          (jitted_func ?keys failing_func) 5 world0)) ''a'' = 1"
    by (simp_all add: reraise_def world0_def)
  moreover from left have "object_jit_call ?keys ''jit'' Cons (\<lambda>_. tl)
          (jitted_func ?keys interrupted_func) 5 world0
       = (world0\<lparr>context_stack := [''jit''], var_value := (var_value world0)(''a'' := 99)\<rparr>,
          Inl KeyboardInterrupt)"
    by (simp add: world0_def)
  moreover from updated have "snd (object_jit_call ?keys ''jit'' Cons (\<lambda>_. tl)
          (jitted_func ?keys adding_func) 5 world0) = Inr 2"
    and "var_value (fst (object_jit_call ?keys ''jit'' Cons (\<lambda>_. tl)
          (jitted_func ?keys adding_func) 5 world0)) ''a'' = 6"
    by (simp_all add: vars_dict_def)
  ultimately show ?thesis by simp
qed

section \<open>Theorems about the call-site rewriter\<close>

text \<open>
  C7 (the code departs from the claim). The call to rewrite, \<open>self.integral\<close>, is made
  with \<open>*self.xs\<close> and \<open>**opts\<close>. The rewriter raises nothing: it returns the call with
  the keywords \<open>gK=gK\<close> and \<open>gNa=gNa\<close> appended.
\<close>

theorem variadic_call_is_rewritten:
  "replace_func dotted variadic_update ''self.integral'' [''gNa'', ''gK''] None =
     Inr [FunctionDef ''update'' [''self'', ''_t''] []
        [ExprStmt (Call (Attribute (Name ''self'') ''integral'')
            [Starred (Attribute (Name ''self'') ''xs'')]
            [Keyword None (Name ''opts''), Keyword (Some ''gK'') (Name ''gK''),
             Keyword (Some ''gNa'') (Name ''gNa'')] None None)]
        []]"
  by code_simp

text \<open>On a tree of the parser, with no \<open>self\<close> to remove, the rewriter never raises.\<close>

lemma visit_total:
  "remove_self T = None \<Longrightarrow> parsed e \<Longrightarrow> \<exists>e'. visit T e = Inr e'"
  "remove_self T = None \<Longrightarrow> parsed e \<Longrightarrow> \<exists>e'. generic_visit T e = Inr e'"
  "remove_self T = None \<Longrightarrow> list_all parsed es \<Longrightarrow> \<exists>es'. visit_all T es = Inr es'"
  "remove_self T = None \<Longrightarrow> list_all parsed es \<Longrightarrow> \<exists>es'. generic_visit_all T es = Inr es'"
  "remove_self T = None \<Longrightarrow> list_all parsed_keyword ks \<Longrightarrow> \<exists>ks'. visit_keywords T ks = Inr ks'"
  apply (induction T e and T e and T es and T es and T ks
    rule: visit_generic_visit_visit_all_generic_visit_all_visit_keywords.induct)
  apply (auto simp: drop_self_def split: sum.splits)
  apply blast
  done

section \<open>Theorems about the analyzer\<close>

lemma cyclic_graph_simps:
  "oname (cyclic_graph 0) = ''A''" "is_dynamical_system (cyclic_graph i)"
  "attrs (cyclic_graph 0) ''b'' = Some (ABase 1)"
  "attrs (cyclic_graph 1) ''a'' = Some (ABase 0)"
  "attrs (cyclic_graph 0) ''V'' = Some AVariable"
  "attrs (cyclic_graph (Suc 0)) ''a'' = Some (ABase 0)"
  "attrs (cyclic_graph (Suc 0)) ''step'' = Some (ACallable (BoundMethod 1 step_B))"
  "attrs (cyclic_graph 0) ''update'' = Some (ACallable (BoundMethod 0 update_A))"
  by (simp_all add: cyclic_graph_def)

text \<open>
  Nothing stops the analysis of methods that refer to each other around the cycle: at
  every depth it ends in \<open>RecursionError\<close>.
\<close>

lemma mutual_methods_recursion:
  "analyze_func unparse [''self'', ''cls''] cyclic_graph depth (BoundMethod 0 update_A)
     = Inl RecursionError
   \<and> analyze_func unparse [''self'', ''cls''] cyclic_graph depth (BoundMethod 1 step_B)
     = Inl RecursionError"
proof (induction depth)
  case 0
  show ?case by simp
next
  case (Suc depth)
  then show ?case
    by (simp add: analyze_cls_func_def analyze_cls_func_code_def analyze_key_def
        update_A_def step_B_def method_source_def cyclic_graph_simps)
qed

text \<open>
  C8, as stated, fails. On the cyclic graph the chain \<open>self.b.a\<close>, which comes back to the
  host, raises \<open>BrainPyError\<close>, and so does the analysis of \<open>probe\<close>; the analysis of
  \<open>A.update\<close> raises \<open>RecursionError\<close>.
\<close>

theorem cyclic_graph_errors:
  "walk cyclic_graph 0 [''b'', ''a''] 1 = Inl BrainPyError
   \<and> analyze_func dotted [''self'', ''cls''] cyclic_graph 1000 (BoundMethod 0 probe)
       = Inl BrainPyError
   \<and> analyze_func dotted [''self'', ''cls''] cyclic_graph 1000 (BoundMethod 0 update_A)
       = Inl RecursionError"
proof -
  have "analyze_func dotted [''self'', ''cls''] cyclic_graph (Suc depth) (BoundMethod 0 probe)
       = Inl BrainPyError" for depth
    by (simp add: analyze_cls_func_def analyze_cls_func_code_def analyze_key_def
        probe_def method_source_def cyclic_graph_simps)
  from this [of 999] have "analyze_func dotted [''self'', ''cls''] cyclic_graph 1000
       (BoundMethod 0 probe) = Inl BrainPyError"
    by (simp only: Suc_numeral num.simps(6) BitM.simps flip: numeral_One) simp
  then show ?thesis
    using mutual_methods_recursion [of dotted 1000]
    by (simp add: cyclic_graph_simps)
qed

lemma walk_index: "walk G owner names i = Inr (t, j, v) \<Longrightarrow> i \<le> j \<and> j < i + length names"
  by (induction names arbitrary: owner i) (fastforce split: option.splits attr.splits)+

lemma walk_BrainPyError: "walk G owner names i = Inl BrainPyError \<longleftrightarrow> follow G owner names \<noteq> None"
  by (induction names arbitrary: owner i) (auto split: option.splits attr.splits)

lemma walk_resolved:
  "walk G owner names i = Inr (t, j, v) \<Longrightarrow>
     follow G owner (take (j - i) names) = Some t \<and> attrs (G t) (names ! (j - i)) = Some v
     \<and> (\<forall>next_owner. v \<noteq> ABase next_owner)"
proof (induction names arbitrary: owner i)
  case Nil
  then show ?case by simp
next
  case (Cons a rest)
  show ?case
  proof (cases "attrs (G owner) a")
    case None
    with Cons.prems show ?thesis by simp
  next
    case (Some x)
    show ?thesis
    proof (cases "\<exists>next_owner. x = ABase next_owner")
      case True
      then obtain next_owner where x: "x = ABase next_owner" by blast
      with Some Cons.prems have w: "walk G next_owner rest (i + 1) = Inr (t, j, v)" by simp
      from walk_index [OF w] have "j - i = Suc (j - (i + 1))" by arith
      with Cons.IH [OF w] Some x show ?thesis by simp
    next
      case False
      with Some Cons.prems have "t = owner" "j = i" "v = x"
        by (auto split: attr.splits)
      with Some False show ?thesis by simp
    qed
  qed
qed

lemma walk_returns:
  "i \<le> j \<Longrightarrow> j < i + length names \<Longrightarrow> follow G owner (take (j - i) names) = Some t \<Longrightarrow>
   attrs (G t) (names ! (j - i)) = Some v \<Longrightarrow> (\<forall>next_owner. v \<noteq> ABase next_owner) \<Longrightarrow>
   walk G owner names i = Inr (t, j, v)"
proof (induction names arbitrary: owner i)
  case Nil
  then show ?case by simp
next
  case (Cons a rest)
  show ?case
  proof (cases "j = i")
    case True
    with Cons.prems show ?thesis by (cases v) simp_all
  next
    case False
    with Cons.prems have d: "j - i = Suc (j - (i + 1))" by arith
    from Cons.prems(3) d obtain next_owner where
      a: "attrs (G owner) a = Some (ABase next_owner)"
      and f: "follow G next_owner (take (j - (i + 1)) rest) = Some t"
      by (auto split: option.splits attr.splits)
    have "walk G next_owner rest (i + 1) = Inr (t, j, v)"
      by (rule Cons.IH) (use Cons.prems False f d in simp_all)
    with a show ?thesis by simp
  qed
qed

lemma walk_AttributeError:
  "walk G owner names i = Inl AttributeError \<longleftrightarrow>
     (\<exists>k<length names. \<exists>t. follow G owner (take k names) = Some t
        \<and> attrs (G t) (names ! k) = None)"
proof (induction names arbitrary: owner i)
  case Nil
  show ?case by simp
next
  case (Cons a rest)
  show ?case
  proof (cases "attrs (G owner) a")
    case None
    then have "follow G owner (take 0 (a # rest)) = Some owner \<and> attrs (G owner) ((a # rest) ! 0) = None"
      by simp
    then have "\<exists>k<length (a # rest). \<exists>t. follow G owner (take k (a # rest)) = Some t
        \<and> attrs (G t) ((a # rest) ! k) = None"
      by (intro exI [of _ 0] exI [of _ owner]) simp
    with None show ?thesis by simp
  next
    case (Some x)
    show ?thesis
    proof (cases "\<exists>next_owner. x = ABase next_owner")
      case True
      then obtain next_owner where x: "x = ABase next_owner" by blast
      have "(\<exists>k<length (a # rest). \<exists>t. follow G owner (take k (a # rest)) = Some t
                \<and> attrs (G t) ((a # rest) ! k) = None)
          \<longleftrightarrow> (\<exists>k<length rest. \<exists>t. follow G next_owner (take k rest) = Some t
                \<and> attrs (G t) (rest ! k) = None)" (is "?L \<longleftrightarrow> ?R")
      proof
        assume ?L
        then obtain k t where k: "k < length (a # rest)"
          "follow G owner (take k (a # rest)) = Some t" "attrs (G t) ((a # rest) ! k) = None"
          by blast
        with Some have "k \<noteq> 0" by (cases k) auto
        then obtain k' where "k = Suc k'" by (cases k) auto
        with k Some x show ?R by auto
      next
        assume ?R
        then obtain k t where "k < length rest" "follow G next_owner (take k rest) = Some t"
          "attrs (G t) (rest ! k) = None" by blast
        with Some x show ?L by (intro exI [of _ "Suc k"] exI [of _ t]) simp
      qed
      with Some x Cons.IH [of next_owner "i + 1"] show ?thesis by simp
    next
      case False
      have "\<not> (\<exists>k<length (a # rest). \<exists>t. follow G owner (take k (a # rest)) = Some t
                \<and> attrs (G t) ((a # rest) ! k) = None)"
      proof
        assume "\<exists>k<length (a # rest). \<exists>t. follow G owner (take k (a # rest)) = Some t
                \<and> attrs (G t) ((a # rest) ! k) = None"
        then obtain k t where k: "follow G owner (take k (a # rest)) = Some t"
          "attrs (G t) ((a # rest) ! k) = None" by blast
        show False
        proof (cases k)
          case 0
          with k Some show False by simp
        next
          case (Suc k')
          with k Some False show False by (cases x) auto
        qed
      qed
      moreover from Some False have "walk G owner (a # rest) i \<noteq> Inl AttributeError"
        by (cases x) auto
      ultimately show ?thesis by blast
    qed
  qed
qed

text \<open>
  C8, amended. On any graph, cyclic or not, the walk along a chain ends within the length
  of the chain, and what it does is determined by the path the chain describes, whether
  or not an owner on it was met before. It raises \<open>BrainPyError\<close> exactly when the whole
  chain leads through instances of \<open>Base\<close>. It raises \<open>AttributeError\<close> exactly when some
  attribute of the chain is missing on the owner that the attributes before it lead to
  through instances of \<open>Base\<close>. It returns an owner, an index and an attribute exactly
  when the attributes before that index lead to that owner through instances of \<open>Base\<close>
  and the attribute at the index is there and is no instance of \<open>Base\<close>. It raises no
  other exception.
\<close>

theorem walk_resolves:
  "(walk G owner names i = Inl BrainPyError \<longleftrightarrow> follow G owner names \<noteq> None)
   \<and> (walk G owner names i = Inl AttributeError \<longleftrightarrow>
        (\<exists>k<length names. \<exists>t. follow G owner (take k names) = Some t
           \<and> attrs (G t) (names ! k) = None))
   \<and> (\<forall>t j v. walk G owner names i = Inr (t, j, v) \<longleftrightarrow>
         i \<le> j \<and> j < i + length names
       \<and> follow G owner (take (j - i) names) = Some t
       \<and> attrs (G t) (names ! (j - i)) = Some v
       \<and> (\<forall>next_owner. v \<noteq> ABase next_owner))
   \<and> (\<forall>e. walk G owner names i = Inl e \<longrightarrow> e = BrainPyError \<or> e = AttributeError)"
proof (intro conjI allI)
  show "walk G owner names i = Inl BrainPyError \<longleftrightarrow> follow G owner names \<noteq> None"
    by (rule walk_BrainPyError)
next
  show "walk G owner names i = Inl AttributeError \<longleftrightarrow>
        (\<exists>k<length names. \<exists>t. follow G owner (take k names) = Some t
           \<and> attrs (G t) (names ! k) = None)"
    by (rule walk_AttributeError)
next
  fix t j v
  show "walk G owner names i = Inr (t, j, v) \<longleftrightarrow>
         i \<le> j \<and> j < i + length names
       \<and> follow G owner (take (j - i) names) = Some t
       \<and> attrs (G t) (names ! (j - i)) = Some v
       \<and> (\<forall>next_owner. v \<noteq> ABase next_owner)"
    using walk_index [of G owner names i t j v] walk_resolved [of G owner names i t j v]
      walk_returns [of i j names G owner t v]
    by blast
next
  fix e
  show "walk G owner names i = Inl e \<longrightarrow> e = BrainPyError \<or> e = AttributeError"
    by (induction names arbitrary: owner i) (auto split: option.splits attr.splits)
qed

theorem walk_resolves_witness:
  "walk cyclic_graph 0 [''b'', ''a'', ''b'', ''a'', ''V'', ''value''] 1 = Inr (0, 5, AVariable)
   \<and> follow cyclic_graph 0 [''b'', ''a'', ''b'', ''a''] = Some 0
   \<and> attrs (cyclic_graph 0) ''V'' = Some AVariable
   \<and> walk cyclic_graph 0 [''b'', ''a''] 1 = Inl BrainPyError
   \<and> follow cyclic_graph 0 [''b'', ''a''] = Some 0
   \<and> walk cyclic_graph 0 [''b'', ''a'', ''missing''] 1 = Inl AttributeError
   \<and> attrs (cyclic_graph 0) ''missing'' = None"
proof -
  have "follow cyclic_graph 0 (take 2 [''b'', ''a'', ''missing'']) = Some 0
      \<and> attrs (cyclic_graph 0) ([''b'', ''a'', ''missing''] ! 2) = None"
    by (simp add: cyclic_graph_def numeral_2_eq_2)
  then have "\<exists>k<length [''b'', ''a'', ''missing'']. \<exists>t.
      follow cyclic_graph 0 (take k [''b'', ''a'', ''missing'']) = Some t
      \<and> attrs (cyclic_graph t) ([''b'', ''a'', ''missing''] ! k) = None"
    by (intro exI [of _ 2] exI [of _ 0]) simp
  moreover have "(1::nat) \<le> 5 \<and> 5 < 1 + length [''b'', ''a'', ''b'', ''a'', ''V'', ''value'']
      \<and> follow cyclic_graph 0 (take (5 - 1) [''b'', ''a'', ''b'', ''a'', ''V'', ''value'']) = Some 0
      \<and> attrs (cyclic_graph 0) ([''b'', ''a'', ''b'', ''a'', ''V'', ''value''] ! (5 - 1)) = Some AVariable
      \<and> (\<forall>next_owner. AVariable \<noteq> ABase next_owner)"
    by (simp add: cyclic_graph_simps)
  moreover have "follow cyclic_graph 0 [''b'', ''a''] \<noteq> None"
    by (simp add: cyclic_graph_simps)
  ultimately show ?thesis
    using walk_resolves [of cyclic_graph 0 "[''b'', ''a'', ''b'', ''a'', ''V'', ''value'']" 1]
      walk_resolves [of cyclic_graph 0 "[''b'', ''a'']" 1]
      walk_resolves [of cyclic_graph 0 "[''b'', ''a'', ''missing'']" 1]
    by (simp add: cyclic_graph_def)
qed

section \<open>The analyzer does not depend on the order of the chains\<close>

lemma returned_simps [simp]: "returned (Inl e) = None" "returned (Inr x) = Some x"
  by (simp_all add: returned_def)

subsection \<open>Commuting partial functions\<close>

lemma commutes_both:
  assumes "commutes f1 f2 x" and "commutes g1 g2 y"
  shows "commutes (both f1 g1) (both f2 g2) (x, y)"
proof -
  have eq: "Option.bind (both h1 k1 (x, y)) (both h2 k2)
        = Option.bind (Option.bind (h1 x) h2)
            (\<lambda>x''. Option.bind (Option.bind (k1 y) k2) (\<lambda>y''. Some (x'', y'')))"
    for h1 h2 :: "'a \<Rightarrow> 'a option" and k1 k2 :: "'b \<Rightarrow> 'b option"
    by (cases "h1 x"; cases "k1 y") (auto simp: both_def split: Option.bind_splits)
  show ?thesis
    using assms by (simp add: commutes_def eq)
qed

lemma commutes_map:
  assumes "\<And>z. k1 (F z) = map_option F (h1 z)" and "\<And>z. k2 (F z) = map_option F (h2 z)"
    and "commutes h1 h2 z"
  shows "commutes k1 k2 (F z)"
proof -
  have "Option.bind (k1 (F z)) k2 = map_option F (Option.bind (h1 z) h2)"
    by (cases "h1 z") (simp_all add: assms(1,2))
  moreover have "Option.bind (k2 (F z)) k1 = map_option F (Option.bind (h2 z) h1)"
    by (cases "h2 z") (simp_all add: assms(1,2))
  ultimately show ?thesis using assms(3) by (simp add: commutes_def)
qed

lemma commutes_Some: "f1 x = Some x \<Longrightarrow> f2 x = Some x \<Longrightarrow> commutes f1 f2 x"
  by (simp add: commutes_def)

subsection \<open>Two rewrites of different calls commute\<close>

lemma apart_sym: "apart T1 T2 \<Longrightarrow> apart T2 T1"
  by (auto simp: apart_def)

lemma visit_Call_other:
  "ast2code T f \<noteq> func_name T \<Longrightarrow>
     visit T (Call f args kws None None) = Inr (Call f args kws None None)"
  by simp

lemma visit_Call_match:
  assumes "visit T (Call f args kws None None) = Inr r"
  shows "\<exists>args' kws'. r = Call f args' kws' None None"
  using assms by (auto split: if_splits sum.splits)

lemma commute_Call_one:
  assumes "apart T1 T2" and "ast2code T1 f = func_name T1"
  shows "commutes (try_visit T1) (try_visit T2) (Call f args kws None None)"
proof -
  from assms have other: "ast2code T2 f \<noteq> func_name T2"
    by (auto simp: apart_def)
  have "Option.bind (try_visit T1 (Call f args kws None None)) (try_visit T2) = try_visit T1 (Call f args kws None None)"
  proof (cases "visit T1 (Call f args kws None None)")
    case (Inl e)
    then show ?thesis by simp
  next
    case (Inr r)
    from visit_Call_match [OF Inr] obtain args' kws' where "r = Call f args' kws' None None"
      by blast
    with Inr other show ?thesis by simp
  qed
  moreover have "Option.bind (try_visit T2 (Call f args kws None None)) (try_visit T1)
       = try_visit T1 (Call f args kws None None)"
    using other by (simp del: visit.simps add: visit_Call_other)
  ultimately show ?thesis by (simp add: commutes_def)
qed

lemma commutes_sym: "commutes f g x \<Longrightarrow> commutes g f x"
  by (simp add: commutes_def)

lemma commute_Call:
  assumes "apart T1 T2"
  shows "commutes (try_visit T1) (try_visit T2) (Call f args kws sa ka)"
proof (cases "sa = None \<and> ka = None")
  case False
  then have "visit T1 (Call f args kws sa ka) = Inl ValueError"
    and "visit T2 (Call f args kws sa ka) = Inl ValueError"
    by auto
  then show ?thesis by (simp add: commutes_def del: visit.simps)
next
  case True
  then have none: "sa = None" "ka = None" by simp_all
  consider "ast2code T1 f = func_name T1" | "ast2code T2 f = func_name T2"
    | "ast2code T1 f \<noteq> func_name T1" "ast2code T2 f \<noteq> func_name T2"
    by blast
  then show ?thesis
  proof cases
    case 1
    show ?thesis
      unfolding none by (rule commute_Call_one [OF assms 1])
  next
    case 2
    show ?thesis
      unfolding none
      by (rule commutes_sym) (rule commute_Call_one [OF apart_sym [OF assms] 2])
  next
    case 3
    then show ?thesis
      unfolding none by (simp del: visit.simps add: visit_Call_other commutes_def)
  qed
qed

lemma tvs_Cons: "try_visit_all T (case_prod (#) z) = map_option (case_prod (#)) (both (try_visit T) (try_visit_all T) z)"
  by (cases z) (auto simp: both_def split: sum.splits)

lemma commute_visit_all:
  assumes "\<And>e. e \<in> set es \<Longrightarrow> commutes (try_visit T1) (try_visit T2) e"
  shows "commutes (try_visit_all T1) (try_visit_all T2) es"
  using assms
proof (induction es)
  case Nil
  then show ?case by (simp add: commutes_def)
next
  case (Cons e es)
  have "commutes (both (try_visit T1) (try_visit_all T1)) (both (try_visit T2) (try_visit_all T2)) (e, es)"
    using Cons by (intro commutes_both) simp_all
  then have "commutes (try_visit_all T1) (try_visit_all T2) (case_prod (#) (e, es))"
    by (rule commutes_map [rotated 2]) (rule tvs_Cons)+
  then show ?case by simp
qed

lemma commute_visit:
  assumes "apart T1 T2"
  shows "commutes (try_visit T1) (try_visit T2) e"
proof (induction e rule: expr.induct [where ?P2.0 = "\<lambda>_. True"])
  case (Call f args kws sa ka)
  show ?case by (rule commute_Call [OF assms])
next
  case (Attribute e a)
  show ?case
    by (rule commutes_map [where F = "\<lambda>e. Attribute e a", OF _ _ Attribute])
      (auto split: sum.splits)
next
  case (Starred e)
  show ?case
    by (rule commutes_map [where F = Starred, OF _ _ Starred]) (auto split: sum.splits)
next
  case (OtherExpr tag es)
  then have "commutes (try_visit_all T1) (try_visit_all T2) es"
    by (intro commute_visit_all) simp
  then show ?case
    by (rule commutes_map [where F = "OtherExpr tag", rotated 2]) (auto split: sum.splits)
qed (simp_all add: commutes_def)

lemma commute_visit_exprs: "apart T1 T2 \<Longrightarrow> commutes (try_visit_all T1) (try_visit_all T2) es"
  by (rule commute_visit_all) (rule commute_visit)

lemma tss_Cons: "try_visit_stmts T (case_prod (#) z) = map_option (case_prod (#)) (both (try_visit_stmt T) (try_visit_stmts T) z)"
  by (cases z) (auto simp: both_def split: sum.splits)

lemma commute_visit_stmts_aux:
  assumes "\<And>s. s \<in> set ss \<Longrightarrow> commutes (try_visit_stmt T1) (try_visit_stmt T2) s"
  shows "commutes (try_visit_stmts T1) (try_visit_stmts T2) ss"
  using assms
proof (induction ss)
  case Nil
  then show ?case by (simp add: commutes_def)
next
  case (Cons s ss)
  have "commutes (both (try_visit_stmt T1) (try_visit_stmts T1)) (both (try_visit_stmt T2) (try_visit_stmts T2)) (s, ss)"
    using Cons by (intro commutes_both) simp_all
  then have "commutes (try_visit_stmts T1) (try_visit_stmts T2) (case_prod (#) (s, ss))"
    by (rule commutes_map [rotated 2]) (rule tss_Cons)+
  then show ?case by simp
qed

lemma ts_Assign:
  "try_visit_stmt T ((\<lambda>(targets, v). Assign targets v) z)
     = map_option (\<lambda>(targets, v). Assign targets v) (both (try_visit_all T) (try_visit T) z)"
  by (cases z) (auto simp: both_def split: sum.splits)

lemma ts_FunctionDef:
  "try_visit_stmt T ((\<lambda>(d, b, dl). FunctionDef name params d b dl) z)
     = map_option (\<lambda>(d, b, dl). FunctionDef name params d b dl)
         (both (try_visit_all T) (both (try_visit_stmts T) (try_visit_all T)) z)"
  by (cases z) (auto simp: both_def split: sum.splits)

lemma ts_OtherStmt:
  "try_visit_stmt T ((\<lambda>(es, ss). OtherStmt tag es ss) z)
     = map_option (\<lambda>(es, ss). OtherStmt tag es ss) (both (try_visit_all T) (try_visit_stmts T) z)"
  by (cases z) (auto simp: both_def split: sum.splits)

lemma commute_visit_stmt:
  assumes "apart T1 T2"
  shows "commutes (try_visit_stmt T1) (try_visit_stmt T2) s"
proof (induction s)
  case (ExprStmt e)
  show ?case
    by (rule commutes_map [where F = ExprStmt, OF _ _ commute_visit [OF assms]])
      (auto split: sum.splits)
next
  case (Assign targets v)
  have "commutes (both (try_visit_all T1) (try_visit T1)) (both (try_visit_all T2) (try_visit T2)) (targets, v)"
    by (intro commutes_both commute_visit_exprs commute_visit assms)
  then have "commutes (try_visit_stmt T1) (try_visit_stmt T2) ((\<lambda>(targets, v). Assign targets v) (targets, v))"
    by (rule commutes_map [rotated 2]) (rule ts_Assign)+
  then show ?case by simp
next
  case (Return r)
  show ?case
  proof (cases r)
    case None
    then show ?thesis by (simp add: commutes_def)
  next
    case (Some e)
    have "commutes (try_visit_stmt T1) (try_visit_stmt T2) (Return (Some e))"
      by (rule commutes_map [where F = "\<lambda>e. Return (Some e)", OF _ _ commute_visit [OF assms]])
        (auto split: sum.splits)
    with Some show ?thesis by simp
  qed
next
  case (FunctionDef name params defaults body decorator_list)
  have "commutes (try_visit_stmts T1) (try_visit_stmts T2) body"
    using FunctionDef by (intro commute_visit_stmts_aux) simp
  then have "commutes (both (try_visit_all T1) (both (try_visit_stmts T1) (try_visit_all T1)))
      (both (try_visit_all T2) (both (try_visit_stmts T2) (try_visit_all T2))) (defaults, body, decorator_list)"
    by (intro commutes_both commute_visit_exprs assms)
  then have "commutes (try_visit_stmt T1) (try_visit_stmt T2)
      ((\<lambda>(d, b, dl). FunctionDef name params d b dl) (defaults, body, decorator_list))"
    by (rule commutes_map [rotated 2]) (rule ts_FunctionDef)+
  then show ?case by simp
next
  case (OtherStmt tag es ss)
  have "commutes (try_visit_stmts T1) (try_visit_stmts T2) ss"
    using OtherStmt by (intro commute_visit_stmts_aux) simp
  then have "commutes (both (try_visit_all T1) (try_visit_stmts T1)) (both (try_visit_all T2) (try_visit_stmts T2)) (es, ss)"
    by (intro commutes_both commute_visit_exprs assms)
  then have "commutes (try_visit_stmt T1) (try_visit_stmt T2) ((\<lambda>(es, ss). OtherStmt tag es ss) (es, ss))"
    by (rule commutes_map [rotated 2]) (rule ts_OtherStmt)+
  then show ?case by simp
qed

lemma commute_visit_stmts: "apart T1 T2 \<Longrightarrow> commutes (try_visit_stmts T1) (try_visit_stmts T2) ss"
  by (rule commute_visit_stmts_aux) (rule commute_visit_stmt)

lemma commute_replace_func:
  assumes "a \<noteq> b"
  shows "commutes (\<lambda>t. returned (replace_func u t a xs None))
           (\<lambda>t. returned (replace_func u t b ys None)) t"
  unfolding replace_func_def
  by (rule commute_visit_stmts) (use assms in \<open>simp add: apart_def FuncTransformer_def\<close>)

subsection \<open>Effects\<close>

lemma generated_simps [simp]:
  "generated (Inl x) = None"
  "generated (Inr st) = Some (st_tree st, st_arguments st, st_data_to_replace st)"
  by (simp_all add: generated_def)

lemma analyze_key_effect:
  "generated (analyze_key u G host sub k st)
     = chain_step u G host sub k (generated (Inr st))"
  by (auto simp: analyze_key_def effect_of_def chain_step_def apply_effect_def both_def Let_def
      split: sum.splits attr.splits option.splits prod.splits)

lemma chain_step_None [simp]: "chain_step u G host sub k None = None"
  by (simp add: chain_step_def)

lemma fold_chain_step_None [simp]: "fold (chain_step u G host sub) ks None = None"
  by (induction ks) simp_all

lemma analyze_keys_effect:
  "generated (analyze_keys u G host sub ks st)
     = fold (chain_step u G host sub) ks (generated (Inr st))"
proof (induction ks arbitrary: st)
  case Nil
  show ?case by simp
next
  case (Cons k ks)
  show ?case
  proof (cases "analyze_key u G host sub k st")
    case (Inl e)
    with analyze_key_effect [of u G host sub k st] show ?thesis by simp
  next
    case (Inr st')
    with analyze_key_effect [of u G host sub k st] Cons.IH [of st'] show ?thesis by simp
  qed
qed

subsection \<open>Joined chains\<close>

lemma dot_cut:
  assumes "CHR ''.'' \<notin> set s" and "CHR ''.'' \<notin> set s'" and "s @ ''.'' @ x = s' @ ''.'' @ y"
  shows "s = s' \<and> x = y"
  using assms
proof (induction s arbitrary: s')
  case Nil
  then show ?case by (cases s') auto
next
  case (Cons c s)
  then show ?case by (cases s') auto
qed

lemma join_dots_Cons: "rest \<noteq> [] \<Longrightarrow> join_dots (s # rest) = s @ ''.'' @ join_dots rest"
  by (cases rest) simp_all

lemma join_dots_inj:
  assumes "k \<noteq> []" and "k' \<noteq> []" and "dot_free k" and "dot_free k'"
    and "join_dots k = join_dots k'"
  shows "k = k'"
  using assms
proof (induction k arbitrary: k')
  case Nil
  then show ?case by simp
next
  case (Cons s rest)
  from Cons.prems obtain s' rest' where k': "k' = s' # rest'" by (cases k') auto
  from Cons.prems k' have free: "CHR ''.'' \<notin> set s" "CHR ''.'' \<notin> set s'"
    "dot_free rest" "dot_free rest'"
    by (simp_all add: dot_free_def)
  show ?case
  proof (cases "rest = []")
    case True
    show ?thesis
    proof (cases "rest' = []")
      case True
      with \<open>rest = []\<close> Cons.prems k' show ?thesis by simp
    next
      case False
      with \<open>rest = []\<close> Cons.prems k' have "s = s' @ ''.'' @ join_dots rest'"
        by (simp add: join_dots_Cons)
      with free show ?thesis by auto
    qed
  next
    case False
    show ?thesis
    proof (cases "rest' = []")
      case True
      with False Cons.prems k' have "s' = s @ ''.'' @ join_dots rest"
        by (simp add: join_dots_Cons)
      with free show ?thesis by auto
    next
      case nonempty: False
      with False Cons.prems k' have "s @ ''.'' @ join_dots rest = s' @ ''.'' @ join_dots rest'"
        by (simp add: join_dots_Cons)
      from dot_cut [OF free(1,2) this] have "s = s'" "join_dots rest = join_dots rest'"
        by simp_all
      with Cons.IH [OF False nonempty free(3,4)] k' show ?thesis by simp
    qed
  qed
qed

lemma dot_free_take: "dot_free k \<Longrightarrow> dot_free (take n k)"
  by (induction k arbitrary: n) (auto simp: dot_free_def take_Cons split: nat.splits)

lemma walk_prefix:
  assumes "walk G owner names i = Inr (t, j, v)"
    and "take (j - i + 1) names = take (j - i + 1) names'"
  shows "walk G owner names' i = Inr (t, j, v)"
  using assms
proof (induction names arbitrary: names' owner i)
  case Nil
  then show ?case by simp
next
  case (Cons a rest)
  from Cons.prems(2) obtain rest' where names': "names' = a # rest'"
    by (cases names') auto
  show ?case
  proof (cases "attrs (G owner) a")
    case None
    with Cons.prems show ?thesis by simp
  next
    case (Some x)
    show ?thesis
    proof (cases "\<exists>next_owner. x = ABase next_owner")
      case True
      then obtain next_owner where x: "x = ABase next_owner" by blast
      with Some Cons.prems have w: "walk G next_owner rest (i + 1) = Inr (t, j, v)" by simp
      from walk_index [OF w] have ij: "j - i = Suc (j - (i + 1))" by arith
      with Cons.prems(2) names' have "take (j - (i + 1) + 1) rest = take (j - (i + 1) + 1) rest'"
        by simp
      from Cons.IH [OF w this] Some x names' show ?thesis by simp
    next
      case False
      with Some Cons.prems names' show ?thesis by (auto split: attr.splits)
    qed
  qed
qed

subsection \<open>The effects of two chains commute\<close>

lemma effect_rewrite:
  assumes "effect_of G host sub k = Some (Effect (Some (f, xs)) A rp)"
  shows "f = join_dots k \<and> k \<noteq> []"
  using assms
  by (auto simp: effect_of_def Let_def
      split: if_splits sum.splits attr.splits option.splits prod.splits)

lemma effect_replace:
  assumes "effect_of G host sub k = Some (Effect rw A (Some (key, h)))"
  shows "\<exists>owner i dat. walk G host (tl k) 1 = Inr (owner, i, dat) \<and> 1 \<le> i \<and> i < length k
    \<and> key = join_dots (take (i + 1) k) \<and> h = oname (G owner) @ ''_'' @ k ! i"
proof -
  from assms have len: "2 \<le> length k"
    by (auto simp: effect_of_def split: if_splits)
  from assms obtain owner i dat where w: "walk G host (tl k) 1 = Inr (owner, i, dat)"
    by (cases "walk G host (tl k) 1") (auto simp: effect_of_def split: if_splits)
  from walk_index [OF w] len have "1 \<le> i" "i < length k" by auto
  moreover from assms w len
  have "key = join_dots (take (i + 1) k) \<and> h = oname (G owner) @ ''_'' @ k ! i"
    by (auto simp: effect_of_def Let_def split: if_splits sum.splits attr.splits option.splits)
  ultimately show ?thesis using w by blast
qed

lemma effect_replace_same:
  assumes a: "effect_of G host sub a = Some (Effect rwa Aa (Some (key, ha)))"
    and b: "effect_of G host sub b = Some (Effect rwb Ab (Some (key, hb)))"
    and free: "dot_free a" "dot_free b"
  shows "ha = hb"
proof -
  from effect_replace [OF a] obtain oa ia da where
    wa: "walk G host (tl a) 1 = Inr (oa, ia, da)" and ia: "1 \<le> ia" "ia < length a"
    and ka: "key = join_dots (take (ia + 1) a)" and ha: "ha = oname (G oa) @ ''_'' @ a ! ia"
    by blast
  from effect_replace [OF b] obtain ob ib db where
    wb: "walk G host (tl b) 1 = Inr (ob, ib, db)" and ib: "1 \<le> ib" "ib < length b"
    and kb: "key = join_dots (take (ib + 1) b)" and hb: "hb = oname (G ob) @ ''_'' @ b ! ib"
    by blast
  have "take (ia + 1) a = take (ib + 1) b"
  proof (rule join_dots_inj)
    show "take (ia + 1) a \<noteq> []" using ia by auto
    show "take (ib + 1) b \<noteq> []" using ib by auto
    show "dot_free (take (ia + 1) a)" "dot_free (take (ib + 1) b)"
      using free by (simp_all add: dot_free_take)
    show "join_dots (take (ia + 1) a) = join_dots (take (ib + 1) b)"
      using ka kb by simp
  qed
  then have pre: "take (ia + 1) a = take (ib + 1) b" .
  from arg_cong [OF pre, of length] ia ib have same: "ia = ib" by simp
  from arg_cong [OF pre, of tl] same ia
  have "take (ia - 1 + 1) (tl a) = take (ia - 1 + 1) (tl b)"
    by (simp add: tl_take)
  from walk_prefix [OF wa this] wb have "oa = ob" by simp
  moreover from arg_cong [OF pre, of "\<lambda>xs. xs ! ia"] same have "a ! ia = b ! ib" by simp
  ultimately show ?thesis using ha hb by simp
qed

lemma commutes_Some_left: "(\<And>x. f x = Some x) \<Longrightarrow> commutes f g x"
  by (cases "g x") (simp_all add: commutes_def)

lemma commutes_Some_right: "(\<And>x. g x = Some x) \<Longrightarrow> commutes f g x"
  by (cases "f x") (simp_all add: commutes_def)

lemma commute_rewrite_of:
  assumes "\<And>f xs g ys. rwa = Some (f, xs) \<Longrightarrow> rwb = Some (g, ys) \<Longrightarrow> f \<noteq> g"
  shows "commutes (rewrite_of u (Effect rwa Aa rpa)) (rewrite_of u (Effect rwb Ab rpb)) t"
proof (cases rwa)
  case None
  then show ?thesis by (intro commutes_Some_left) simp
next
  case a: (Some fa)
  show ?thesis
  proof (cases rwb)
    case None
    then show ?thesis by (intro commutes_Some_right) simp
  next
    case b: (Some fb)
    obtain f xs g ys where "fa = (f, xs)" "fb = (g, ys)"
      by (cases fa, cases fb) blast
    moreover have "rewrite_of u (Effect (Some (f', xs')) A rp)
        = (\<lambda>t. returned (replace_func u t f' xs' None))" for f' xs' A rp
      by (rule ext) simp
    ultimately show ?thesis
      using a b assms [of f xs g ys] commute_replace_func [of f g u xs ys t] by simp
  qed
qed

lemma commute_record_of:
  assumes "\<And>k h h'. rpa = Some (k, h) \<Longrightarrow> rpb = Some (k, h') \<Longrightarrow> h = h'"
  shows "commutes (record_of (Effect rwa Aa rpa)) (record_of (Effect rwb Ab rpb)) p"
proof -
  obtain B m where p: "p = (B, m)" by (cases p)
  have union: "B |\<union>| Aa |\<union>| Ab = B |\<union>| Ab |\<union>| Aa" by blast
  show ?thesis
  proof (cases rpa)
    case None
    then show ?thesis
      unfolding p by (cases rpb) (auto simp: commutes_def union)
  next
    case a: (Some ka)
    show ?thesis
    proof (cases rpb)
      case None
      with a show ?thesis unfolding p by (cases ka) (auto simp: commutes_def union)
    next
      case b: (Some kb)
      obtain k h k' h' where kk: "ka = (k, h)" "kb = (k', h')"
        by (cases ka, cases kb) blast
      have "(m(k \<mapsto> h))(k' \<mapsto> h') = (m(k' \<mapsto> h'))(k \<mapsto> h)"
      proof (cases "k = k'")
        case True
        with assms [of k h h'] a b kk show ?thesis by simp
      next
        case False
        then show ?thesis by (simp add: fun_upd_twist)
      qed
      with a b kk show ?thesis unfolding p by (simp add: commutes_def union)
    qed
  qed
qed

lemma commute_apply_effect:
  assumes a: "effect_of G host sub a = Some ea" and b: "effect_of G host sub b = Some eb"
    and free: "dot_free a" "dot_free b" and neq: "a \<noteq> b"
  shows "commutes (apply_effect u ea) (apply_effect u eb) p"
proof -
  obtain rwa Aa rpa where ea: "ea = Effect rwa Aa rpa" by (cases ea)
  obtain rwb Ab rpb where eb: "eb = Effect rwb Ab rpb" by (cases eb)
  obtain t q where p: "p = (t, q)" by (cases p)
  have rw: "f \<noteq> g" if "rwa = Some (f, xs)" "rwb = Some (g, ys)" for f xs g ys
  proof
    assume "f = g"
    moreover from effect_rewrite a ea that have "f = join_dots a" "a \<noteq> []" by blast+
    moreover from effect_rewrite b eb that have "g = join_dots b" "b \<noteq> []" by blast+
    ultimately have "a = b" using free by (intro join_dots_inj) simp_all
    with neq show False by simp
  qed
  have rp: "h = h'" if "rpa = Some (k, h)" "rpb = Some (k, h')" for k h h'
    using effect_replace_same [OF _ _ free] a b ea eb that by blast
  show ?thesis
    unfolding p ea eb apply_effect_def
    by (intro commutes_both commute_rewrite_of commute_record_of) (use rw rp in blast)+
qed

lemma commute_chain_step:
  assumes "dot_free a" and "dot_free b"
  shows "chain_step u G host sub a \<circ> chain_step u G host sub b
       = chain_step u G host sub b \<circ> chain_step u G host sub a"
proof (rule ext)
  fix so
  show "(chain_step u G host sub a \<circ> chain_step u G host sub b) so
      = (chain_step u G host sub b \<circ> chain_step u G host sub a) so"
  proof (cases "a = b")
    case True
    then show ?thesis by simp
  next
    case neq: False
    show ?thesis
    proof (cases so)
      case None
      then show ?thesis by simp
    next
      case (Some p)
      show ?thesis
      proof (cases "effect_of G host sub a")
        case None
        then show ?thesis by (simp add: chain_step_def)
      next
        case a: (Some ea)
        show ?thesis
        proof (cases "effect_of G host sub b")
          case None
          then show ?thesis by (simp add: chain_step_def)
        next
          case b: (Some eb)
          from commute_apply_effect [OF a b assms neq, of u p] a b Some show ?thesis
            by (simp add: chain_step_def commutes_def)
        qed
      qed
    qed
  qed
qed

lemma fold_chain_step_order:
  assumes "distinct ks" and "distinct ks'" and "set ks = set ks'"
    and "\<And>k. k \<in> set ks \<Longrightarrow> dot_free k"
  shows "fold (chain_step u G host sub) ks so = fold (chain_step u G host sub) ks' so"
proof -
  from assms(1-3) have "mset ks = mset ks'"
    by (simp add: set_eq_iff_mset_eq_distinct)
  then have "fold (chain_step u G host sub) ks = fold (chain_step u G host sub) ks'"
    by (intro fold_multiset_equiv commute_chain_step assms(4))
  then show ?thesis by simp
qed

subsection \<open>The generated function\<close>

lemma generated_final_code:
  "generated (case r of Inl e \<Rightarrow> Inl e | Inr st \<Rightarrow> final_code st)
     = Option.bind (generated r) finish"
  by (cases r) (auto simp: finish_def split: list.splits stmt.splits)

lemma generated_analyze_cls_func_code:
  "generated (analyze_cls_func_code u kw G host src scope sub)
     = (case src_params src of
          [] \<Rightarrow> None
        | cls_name # params \<Rightarrow>
            if cls_name \<notin> set kw then None
            else Option.bind
              (fold (chain_step u G host sub) (src_chains src)
                 (Some ([FunctionDef (src_name src) params (src_defaults src) (src_body src)
                           (src_decorators src)], {||}, Map.empty)))
              finish)"
  by (simp add: analyze_cls_func_code_def generated_final_code analyze_keys_effect
      del: final_code.simps split: list.splits)

lemma visit_stmts_FunctionDef:
  assumes "visit_stmts T [FunctionDef name params d b dl] = Inr t"
  shows "\<exists>d' b' dl'. t = [FunctionDef name params d' b' dl']"
  using assms by (auto split: sum.splits)

lemma analyze_key_shape:
  assumes "analyze_key u G host sub k st = Inr st'"
    and "\<exists>d b dl. st_tree st = [FunctionDef name params d b dl]"
  shows "\<exists>d b dl. st_tree st' = [FunctionDef name params d b dl]"
proof (cases "st_tree st' = st_tree st")
  case True
  with assms(2) show ?thesis by simp
next
  case False
  with assms(1) obtain f xs where "replace_func u (st_tree st) f xs None = Inr (st_tree st')"
    by (auto simp: analyze_key_def Let_def
        split: if_splits sum.splits attr.splits option.splits prod.splits)
  moreover from assms(2) obtain d b dl where "st_tree st = [FunctionDef name params d b dl]"
    by blast
  ultimately have "visit_stmts (FuncTransformer u f xs None) [FunctionDef name params d b dl]
      = Inr (st_tree st')"
    by (simp add: replace_func_def del: visit_stmts.simps visit_stmt.simps)
  then show ?thesis by (rule visit_stmts_FunctionDef)
qed

lemma analyze_keys_shape:
  assumes "analyze_keys u G host sub ks st = Inr st'"
    and "\<exists>d b dl. st_tree st = [FunctionDef name params d b dl]"
  shows "\<exists>d b dl. st_tree st' = [FunctionDef name params d b dl]"
  using assms
proof (induction ks arbitrary: st)
  case Nil
  then show ?case by simp
next
  case (Cons k ks)
  from Cons.prems(1) obtain st1 where one: "analyze_key u G host sub k st = Inr st1"
    and rest: "analyze_keys u G host sub ks st1 = Inr st'"
    by (auto split: sum.splits)
  from analyze_key_shape [OF one Cons.prems(2)] Cons.IH [OF rest] show ?case by blast
qed

lemma sorted_list_of_fset_sorted:
  "sorted (sorted_list_of_fset A) \<and> distinct (sorted_list_of_fset A)"
  by (simp add: sorted_list_of_fset.rep_eq)

lemma signature_sorted:
  assumes "analyze_cls_func_code u kw G host src scope sub = Inr st"
  shows "\<exists>defaults body.
      st_tree st = [FunctionDef (src_name src)
                      (tl (src_params src) @ sorted_list_of_fset (st_arguments st))
                      defaults body []]"
proof -
  from assms obtain cls_name params where ps: "src_params src = cls_name # params"
    by (cases "src_params src") (auto simp: analyze_cls_func_code_def)
  let ?st0 = "\<lparr>st_tree = [FunctionDef (src_name src) params (src_defaults src)
                                  (src_body src) (src_decorators src)],
               st_arguments = {||}, st_arg2call = Map.empty, st_nodes = Map.empty,
               st_code_scope = scope, st_data_to_replace = Map.empty\<rparr>"
  from assms ps obtain st1 where run: "analyze_keys u G host sub (src_chains src) ?st0 = Inr st1"
    and fin: "final_code st1 = Inr st"
    by (auto simp: analyze_cls_func_code_def split: if_splits sum.splits)
  from analyze_keys_shape [OF run, of "src_name src" params]
  obtain d b dl where "st_tree st1 = [FunctionDef (src_name src) params d b dl]"
    by auto
  with fin ps show ?thesis by auto
qed

lemma call_site_sorted:
  assumes "visit (FuncTransformer u f xs rm) (Call fn args kws sa ka) = Inr c"
    and "u fn = f"
  shows "\<exists>args' kws'.
      c = Call fn args' (kws' @ map (\<lambda>k. Keyword (Some k) (Name k)) (sort xs)) None None"
  using assms
  by (auto simp: FuncTransformer_def new_keywords_def split: if_splits sum.splits)

subsection \<open>The signature an integrator gets\<close>

lemma intg_step_tree:
  assumes "intg_step u kw G sub f_node rm item (need, st) = Inr (need', st')"
  shows "st_tree st' = st_tree st
    \<or> (\<exists>f xs. replace_func u (st_tree st) f xs rm = Inr (st_tree st'))"
proof -
  obtain key func where item: "item = (key, func)" by (cases item)
  show ?thesis
  proof (cases func)
    case RawDispatcher
    with assms item show ?thesis by (simp add: intg_step_def)
  next
    case (RawFunction self src)
    let ?node = "case f_node of
        Some h \<Rightarrow> Some h
      | None \<Rightarrow> (case self of
           Some h \<Rightarrow> if is_dynamical_system (G h) then Some h else None
         | None \<Rightarrow> None)"
    show ?thesis
    proof (cases ?node)
      case None
      with assms item RawFunction show ?thesis by (auto simp: intg_step_def)
    next
      case (Some func_node)
      with assms item RawFunction obtain r where
        r: "analyze_cls_func u kw G sub func_node src = Inr r"
        by (cases "analyze_cls_func u kw G sub func_node src") (simp_all add: intg_step_def)
      let ?tree = "if r_arguments r \<noteq> {||} \<or> (rm \<noteq> None \<and> rm \<noteq> Some [])
          then replace_func u (st_tree st) key (sorted_list_of_fset (r_arguments r)) rm
          else Inr (st_tree st)"
      from assms item RawFunction Some r obtain tree' where
        tree: "?tree = Inr tree'" and st': "st_tree st' = tree'"
        by (cases ?tree) (auto simp: intg_step_def)
      then show ?thesis by (auto split: if_splits)
    qed
  qed
qed

lemma intg_step_shape:
  assumes "intg_step u kw G sub f_node rm item (need, st) = Inr (need', st')"
    and "\<exists>d b dl. st_tree st = [FunctionDef name params d b dl]"
  shows "\<exists>d b dl. st_tree st' = [FunctionDef name params d b dl]"
proof -
  from intg_step_tree [OF assms(1)] show ?thesis
  proof
    assume "st_tree st' = st_tree st"
    with assms(2) show ?thesis by simp
  next
    assume "\<exists>f xs. replace_func u (st_tree st) f xs rm = Inr (st_tree st')"
    then obtain f xs where "replace_func u (st_tree st) f xs rm = Inr (st_tree st')"
      by blast
    moreover from assms(2) obtain d b dl where "st_tree st = [FunctionDef name params d b dl]"
      by blast
    ultimately have "visit_stmts (FuncTransformer u f xs rm) [FunctionDef name params d b dl]
        = Inr (st_tree st')"
      by (simp add: replace_func_def del: visit_stmts.simps visit_stmt.simps)
    then show ?thesis by (rule visit_stmts_FunctionDef)
  qed
qed

lemma intg_loop_shape:
  assumes "intg_loop u kw G sub f_node rm items (need, st) = Inr (need', st')"
    and "\<exists>d b dl. st_tree st = [FunctionDef name params d b dl]"
  shows "\<exists>d b dl. st_tree st' = [FunctionDef name params d b dl]"
  using assms
proof (induction items arbitrary: need st)
  case Nil
  then show ?case by simp
next
  case (Cons item items)
  from Cons.prems(1) obtain need1 st1 where
    one: "intg_step u kw G sub f_node rm item (need, st) = Inr (need1, st1)"
    and rest: "intg_loop u kw G sub f_node rm items (need1, st1) = Inr (need', st')"
    by (auto split: sum.splits)
  from intg_step_shape [OF one Cons.prems(2)] Cons.IH [OF rest] show ?case by blast
qed

lemma analyze_cls_func_signature:
  assumes "analyze_cls_func u kw G sub host src = Inr r" and "r_func r = Compiled name t m"
  shows "\<exists>defaults body.
      t = [FunctionDef name (tl (src_params src) @ sorted_list_of_fset (r_arguments r))
             defaults body []]"
proof -
  from assms obtain st where
    st: "analyze_cls_func_code u kw G host src
           (map_of (map (\<lambda>v. (v, ClosureVar)) (src_closure src))) sub = Inr st"
    and r: "name = src_name src" "t = st_tree st" "r_arguments r = st_arguments st"
    by (auto simp: analyze_cls_func_def split: sum.splits)
  from signature_sorted [OF st] r show ?thesis by simp
qed

lemma integrator_signature:
  assumes "analyze_intg_func u kw G sub ig = Inr r" and "r_func r = Compiled name t m"
  shows "\<exists>params defaults body.
      t = [FunctionDef name (params @ sorted_list_of_fset (r_arguments r)) defaults body []]"
proof (cases "ig_exponential ig")
  case True
  with assms(1) obtain h where "analyze_cls_func u kw G sub h (ig_source ig) = Inr r"
    by (auto simp: analyze_intg_func_def split: option.splits)
  from analyze_cls_func_signature [OF this assms(2)] show ?thesis by blast
next
  case False
  let ?st0 = "\<lparr>st_tree = [FunctionDef (src_name (ig_source ig)) params
                            (src_defaults (ig_source ig)) (src_body (ig_source ig))
                            (src_decorators (ig_source ig))],
               st_arguments = {||}, st_arg2call = Map.empty, st_nodes = Map.empty,
               st_code_scope = map_of (map (\<lambda>v. (v, ClosureVar)) (src_closure (ig_source ig))),
               st_data_to_replace = Map.empty\<rparr>"
  from assms(1) False obtain f_node rm params where
    self: "intg_self G ig = Inr (f_node, rm, params)"
    by (cases "intg_self G ig") (auto simp: analyze_intg_func_def)
  let ?st0 = "\<lparr>st_tree = [FunctionDef (src_name (ig_source ig)) params
                            (src_defaults (ig_source ig)) (src_body (ig_source ig))
                            (src_decorators (ig_source ig))],
               st_arguments = {||}, st_arg2call = Map.empty, st_nodes = Map.empty,
               st_code_scope = map_of (map (\<lambda>v. (v, ClosureVar)) (src_closure (ig_source ig))),
               st_data_to_replace = Map.empty\<rparr>"
  from assms(1) False self obtain need st where
    loop: "intg_loop u kw G sub f_node rm (ig_raw_func ig) (False, ?st0) = Inr (need, st)"
    and res: "intg_result ig (need, st) = Inr r"
    by (cases "intg_loop u kw G sub f_node rm (ig_raw_func ig) (False, ?st0)")
      (auto simp: analyze_intg_func_def)
  from res assms(2) obtain st' where fin: "final_code st = Inr st'"
    and r: "name = src_name (ig_source ig)" "t = st_tree st'" "r_arguments r = st_arguments st'"
    by (cases "final_code st")
      (auto simp: intg_result_def simp del: final_code.simps split: if_splits)
  from intg_loop_shape [OF loop, of "src_name (ig_source ig)" params]
  obtain d b dl where "st_tree st = [FunctionDef (src_name (ig_source ig)) params d b dl]"
    by auto
  with fin r show ?thesis by auto
qed

text \<open>
  C9. The chains of \<open>self_data\<close> come out of a set, in no fixed order. For any two orders
  of the same chains the analyzer either fails both times or produces the same hoisted
  arguments, the same rewritten tree and the same substitutions, hence the same source.
  The parameters appended to the signature are the hoisted arguments in increasing order
  of their names, without repetition, a rewritten call site receives the keywords
  \<open>k=k\<close> in increasing order of \<open>k\<close>, and the function generated for an integrator has
  the hoisted arguments appended to its signature in the same order.
\<close>

theorem analysis_order_independent:
  assumes "distinct ks" and "distinct ks'" and "set ks = set ks'" and "list_all dot_free ks"
  shows "generated (analyze_cls_func_code u kw G host (src\<lparr>src_chains := ks\<rparr>) scope sub)
       = generated (analyze_cls_func_code u kw G host (src\<lparr>src_chains := ks'\<rparr>) scope sub)
     \<and> (\<forall>st. analyze_cls_func_code u kw G host (src\<lparr>src_chains := ks\<rparr>) scope sub = Inr st \<longrightarrow>
          (\<exists>defaults body.
             st_tree st = [FunctionDef (src_name src)
                             (tl (src_params src) @ sorted_list_of_fset (st_arguments st))
                             defaults body []])
          \<and> sorted (sorted_list_of_fset (st_arguments st))
          \<and> distinct (sorted_list_of_fset (st_arguments st)))
     \<and> (\<forall>f xs rm fn args kws sa ka c.
          visit (FuncTransformer u f xs rm) (Call fn args kws sa ka) = Inr c \<and> u fn = f \<longrightarrow>
          (\<exists>args' kws'.
             c = Call fn args' (kws' @ map (\<lambda>k. Keyword (Some k) (Name k)) (sort xs)) None None)
          \<and> sorted (sort xs))
     \<and> (\<forall>ig r name t m.
          analyze_intg_func u kw G sub ig = Inr r \<and> r_func r = Compiled name t m \<longrightarrow>
          (\<exists>params defaults body.
             t = [FunctionDef name (params @ sorted_list_of_fset (r_arguments r))
                    defaults body []]))"
proof (intro conjI allI impI)
  have "fold (chain_step u G host sub) ks so = fold (chain_step u G host sub) ks' so" for so
    using assms by (intro fold_chain_step_order) (simp_all add: list_all_iff)
  then show "generated (analyze_cls_func_code u kw G host (src\<lparr>src_chains := ks\<rparr>) scope sub)
       = generated (analyze_cls_func_code u kw G host (src\<lparr>src_chains := ks'\<rparr>) scope sub)"
    by (simp add: generated_analyze_cls_func_code split: list.splits)
next
  fix st
  assume "analyze_cls_func_code u kw G host (src\<lparr>src_chains := ks\<rparr>) scope sub = Inr st"
  from signature_sorted [OF this]
  show "\<exists>defaults body.
      st_tree st = [FunctionDef (src_name src)
                      (tl (src_params src) @ sorted_list_of_fset (st_arguments st))
                      defaults body []]"
    by simp
next
  fix f xs rm fn args kws sa ka c
  assume "visit (FuncTransformer u f xs rm) (Call fn args kws sa ka) = Inr c \<and> u fn = f"
  then show "\<exists>args' kws'.
      c = Call fn args' (kws' @ map (\<lambda>k. Keyword (Some k) (Name k)) (sort xs)) None None"
    using call_site_sorted by blast
next
  fix ig r name t m
  assume "analyze_intg_func u kw G sub ig = Inr r \<and> r_func r = Compiled name t m"
  then show "\<exists>params defaults body.
      t = [FunctionDef name (params @ sorted_list_of_fset (r_arguments r)) defaults body []]"
    using integrator_signature by blast
qed (simp_all add: sorted_list_of_fset_sorted)

lemma neuron_generated:
  "map_option (\<lambda>(t, A, m). (t, A, m ''self.V'', m ''self.integral''))
     (generated (neuron_run [[''self'', ''integral''], [''self'', ''V'']]))
   = Some ([FunctionDef ''update'' [''_t'', ''N_V'', ''N_gK'', ''N_gNa'']
              [Constant ''None'', Constant ''None'', Constant ''None'']
              [ExprStmt (Call (Attribute (Name ''self'') ''integral'')
                 [Attribute (Name ''self'') ''V'', Name ''_t'']
                 [Keyword (Some ''N_gK'') (Name ''N_gK''),
                  Keyword (Some ''N_gNa'') (Name ''N_gNa'')] None None)]
              []],
           {|''N_V'', ''N_gK'', ''N_gNa''|}, Some ''N_V'', Some ''N_integral'')"
  by code_simp

theorem analysis_order_independent_witness:
  "generated (neuron_run [[''self'', ''integral''], [''self'', ''V'']])
     = generated (neuron_run [[''self'', ''V''], [''self'', ''integral'']])
   \<and> map_option (\<lambda>(t, A, m). (t, A, m ''self.V'', m ''self.integral''))
       (generated (neuron_run [[''self'', ''V''], [''self'', ''integral'']]))
     = Some ([FunctionDef ''update'' [''_t'', ''N_V'', ''N_gK'', ''N_gNa'']
              [Constant ''None'', Constant ''None'', Constant ''None'']
              [ExprStmt (Call (Attribute (Name ''self'') ''integral'')
                 [Attribute (Name ''self'') ''V'', Name ''_t'']
                 [Keyword (Some ''N_gK'') (Name ''N_gK''),
                  Keyword (Some ''N_gNa'') (Name ''N_gNa'')] None None)]
              []],
           {|''N_V'', ''N_gK'', ''N_gNa''|}, Some ''N_V'', Some ''N_integral'')
   \<and> generated_tree (analyze_intg_func dotted [''self'', ''cls''] neuron_graph
         (analyze_func dotted [''self'', ''cls''] neuron_graph 2) neuron_integrator)
     = Some ([FunctionDef ''int_V'' [''V'', ''t'', ''N_gK'', ''N_gNa'']
                [Constant ''None'', Constant ''None'']
                [Return (Some (Call (Name ''f'') [Name ''V'', Name ''t'']
                   [Keyword (Some ''N_gK'') (Name ''N_gK''),
                    Keyword (Some ''N_gNa'') (Name ''N_gNa'')] None None))] []],
             {|''N_gK'', ''N_gNa''|})"
proof -
  have intg: "generated_tree (analyze_intg_func dotted [''self'', ''cls''] neuron_graph
         (analyze_func dotted [''self'', ''cls''] neuron_graph 2) neuron_integrator)
     = Some ([FunctionDef ''int_V'' [''V'', ''t'', ''N_gK'', ''N_gNa'']
                [Constant ''None'', Constant ''None'']
                [Return (Some (Call (Name ''f'') [Name ''V'', Name ''t'']
                   [Keyword (Some ''N_gK'') (Name ''N_gK''),
                    Keyword (Some ''N_gNa'') (Name ''N_gNa'')] None None))] []],
             {|''N_gK'', ''N_gNa''|})"
    by code_simp
  have "distinct [[''self'', ''integral''], [''self'', ''V'']]"
    and "distinct [[''self'', ''V''], [''self'', ''integral'']]"
    and "set [[''self'', ''integral''], [''self'', ''V'']]
       = set [[''self'', ''V''], [''self'', ''integral'']]"
    and "list_all dot_free [[''self'', ''integral''], [''self'', ''V'']]"
    by (auto simp: dot_free_def)
  from analysis_order_independent [OF this, THEN conjunct1,
      of dotted "[''self'', ''cls'']" neuron_graph 0 neuron_update Map.empty
        "analyze_func dotted [''self'', ''cls''] neuron_graph 2"]
  have same: "generated (neuron_run [[''self'', ''integral''], [''self'', ''V'']])
     = generated (neuron_run [[''self'', ''V''], [''self'', ''integral'']])"
    by (simp add: neuron_run_def)
  with neuron_generated intg show ?thesis by simp
qed

end
